theory Spec2Isabelle
  imports Main "HOL-Library.Sublist" "HOL-Library.Multiset"
begin

section \<open>Data model\<close>

text \<open>
  Object identifiers of the document store are abstract values. A path parameter
  (\<open>req.params.id\<close>) is a string that the store's driver either casts to an identifier or
  rejects with a CastError of kind ObjectId. The handlers of routes/tweets.js use the
  parameter only through that cast, and \<open>path_id\<close> is its outcome.

  A JavaScript string is the list of its code units; the model has the code units below
  256, one \<open>char\<close> each.
\<close>

type_synonym oid = nat

datatype path_id = Malformed | WellFormed oid

text \<open>
  The follow handler also compares the path parameter, as a string, with identifiers that
  the store prints (\<open>req.user.id\<close> and the entries of \<open>req.user.following\<close>). The store
  prints an identifier in one spelling, the canonical one, and casts other spellings to the
  same identifier (hexadecimal digits in upper case, for one). So a path parameter is a
  string that cannot be cast, the canonical spelling of an identifier, or another spelling
  of it; only the canonical spelling of \<open>i\<close> is equal, as a string, to the printed \<open>i\<close>.
\<close>

datatype path_string = Uncastable | Canonical oid | Respelled oid

definition cast_path :: "path_string \<Rightarrow> path_id" where
  "cast_path p =
     (case p of Uncastable \<Rightarrow> Malformed | Canonical i \<Rightarrow> WellFormed i
      | Respelled i \<Rightarrow> WellFormed i)"

text \<open>
  models/Tweet.js: the schema of a tweet. \<open>tid\<close> is the document's \<open>_id\<close>; the option
  \<open>timestamps: true\<close> gives \<open>createdAt\<close> and \<open>updatedAt\<close> (milliseconds). The field
  \<open>image\<close> of the schema is \<open>image_path\<close> here.
\<close>

record tweet_doc =
  tid :: oid
  user :: oid
  content :: string
  image_path :: "string option"
  likes :: "oid list"
  retweets :: "oid list"
  parent :: "oid option"
  isReply :: bool
  createdAt :: nat
  updatedAt :: nat

text \<open>
  Modelled from the spec: models/User.js is not among the sources. The spec's data model
  lists a unique identifier, name, username, email, password hash, bio, location, website,
  profile and cover image paths, the ordered lists of follower and followee identifiers,
  and creation and update timestamps. \<open>email\<close> and \<open>password\<close> are options because a
  query may deselect them (\<open>.select('-password -email')\<close>); a stored document has both.
\<close>

record user_doc =
  uid :: oid
  name :: string
  username :: string
  email :: "string option"
  password :: "string option"
  bio :: string
  location :: string
  website :: string
  profileImage :: string
  coverImage :: string
  followers :: "oid list"
  following :: "oid list"
  userCreatedAt :: nat
  userUpdatedAt :: nat

record store =
  tweets :: "tweet_doc list"
  users :: "user_doc list"

text \<open>
  What \<open>populate('user', 'name username profileImage')\<close> puts in place of the owner's
  identifier: the selected fields and the \<open>_id\<close>, or null when no such user exists.
\<close>

record user_ref =
  ref_id :: oid
  ref_name :: string
  ref_username :: string
  ref_profileImage :: string

type_synonym with_user = "tweet_doc \<times> user_ref option"

type_synonym with_parent = "with_user \<times> with_user option"

text \<open>The JSON bodies the handlers send, and a response as status code and body.\<close>

datatype body =
    Message string
  | Text string
  | ValidationErrors "string list"
  | TweetOut with_user
  | TweetFull with_parent
  | TweetsOut "with_user list"
  | TweetsFull "with_parent list"
  | LikeOut bool oid
  | RetweetOut bool oid
  | FollowOut bool oid
  | UserOut "user_doc option"
  | SearchOut "user_doc list" "with_user list"

type_synonym response = "nat \<times> body"

section \<open>The document store\<close>

text \<open>
  A collection is the list of its documents in natural (insertion) order. Lookups,
  updates and deletions by \<open>_id\<close> act on the first document with that identifier, as
  \<open>findOne\<close>, \<open>updateOne\<close> and \<open>deleteOne\<close> do.
\<close>

fun update_first :: "('a \<Rightarrow> bool) \<Rightarrow> ('a \<Rightarrow> 'a) \<Rightarrow> 'a list \<Rightarrow> 'a list" where
  "update_first P f [] = []"
| "update_first P f (x # xs) = (if P x then f x # xs else x # update_first P f xs)"

fun delete_first :: "('a \<Rightarrow> bool) \<Rightarrow> 'a list \<Rightarrow> 'a list" where
  "delete_first P [] = []"
| "delete_first P (x # xs) = (if P x then xs else x # delete_first P xs)"

definition findById :: "oid \<Rightarrow> tweet_doc list \<Rightarrow> tweet_doc option" where
  "findById i ts = find (\<lambda>t. tid t = i) ts"

definition findUserById :: "oid \<Rightarrow> user_doc list \<Rightarrow> user_doc option" where
  "findUserById i us = find (\<lambda>u. uid u = i) us"

text \<open>
  \<open>tweet.save()\<close> on a loaded and modified document: the stored document with the same
  \<open>_id\<close> takes the new field values, and the timestamps plugin sets \<open>updatedAt\<close>.
\<close>

definition save_tweet :: "nat \<Rightarrow> tweet_doc \<Rightarrow> store \<Rightarrow> store" where
  "save_tweet now t s =
     s\<lparr>tweets := update_first (\<lambda>x. tid x = tid t) (\<lambda>_. t\<lparr>updatedAt := now\<rparr>) (tweets s)\<rparr>"

definition populate_user :: "store \<Rightarrow> tweet_doc \<Rightarrow> with_user" where
  "populate_user s t =
     (t, map_option
           (\<lambda>u. \<lparr>ref_id = uid u, ref_name = name u, ref_username = username u,
                 ref_profileImage = profileImage u\<rparr>)
           (findUserById (user t) (users s)))"

definition populate_parent :: "store \<Rightarrow> tweet_doc \<Rightarrow> with_parent" where
  "populate_parent s t =
     (populate_user s t,
      (case parent t of
         None \<Rightarrow> None
       | Some p \<Rightarrow> map_option (populate_user s) (findById p (tweets s))))"

section \<open>Tweet handlers (routes/tweets.js)\<close>

text \<open>
  Every handler below is the function that runs after the \<open>auth\<close> middleware has
  attached \<open>req.user\<close>, the caller's user document; \<open>now\<close> is the clock read by the
  timestamps plugin. A handler returns its response and the store it leaves.
\<close>

definition tweet_not_found :: response where
  "tweet_not_found = (404, Message ''Tweet not found'')"

definition server_error :: response where
  "server_error = (500, Text ''Server error'')"

text \<open>POST /tweets/:id/like\<close>

definition like_handler :: "user_doc \<Rightarrow> path_id \<Rightarrow> nat \<Rightarrow> store \<Rightarrow> response \<times> store" where
  "like_handler req_user pid now s =
     (case pid of
        Malformed \<Rightarrow> (tweet_not_found, s)
      | WellFormed i \<Rightarrow>
          (case findById i (tweets s) of
             None \<Rightarrow> (tweet_not_found, s)
           | Some tweet \<Rightarrow>
               (let isLiked = (uid req_user \<in> set (likes tweet));
                    tweet' =
                      (if isLiked
                       then tweet\<lparr>likes := filter (\<lambda>like. like \<noteq> uid req_user) (likes tweet)\<rparr>
                       else tweet\<lparr>likes := uid req_user # likes tweet\<rparr>)
                in ((200, LikeOut (\<not> isLiked) (uid req_user)), save_tweet now tweet' s))))"

text \<open>POST /tweets/:id/retweet\<close>

definition retweet_handler :: "user_doc \<Rightarrow> path_id \<Rightarrow> nat \<Rightarrow> store \<Rightarrow> response \<times> store" where
  "retweet_handler req_user pid now s =
     (case pid of
        Malformed \<Rightarrow> (tweet_not_found, s)
      | WellFormed i \<Rightarrow>
          (case findById i (tweets s) of
             None \<Rightarrow> (tweet_not_found, s)
           | Some tweet \<Rightarrow>
               (let isRetweeted = (uid req_user \<in> set (retweets tweet));
                    tweet' =
                      (if isRetweeted
                       then tweet\<lparr>retweets :=
                              filter (\<lambda>retweet. retweet \<noteq> uid req_user) (retweets tweet)\<rparr>
                       else tweet\<lparr>retweets := uid req_user # retweets tweet\<rparr>)
                in ((200, RetweetOut (\<not> isRetweeted) (uid req_user)),
                    save_tweet now tweet' s))))"

text \<open>GET /tweets/:id\<close>

definition get_tweet_handler :: "path_id \<Rightarrow> store \<Rightarrow> response" where
  "get_tweet_handler pid s =
     (case pid of
        Malformed \<Rightarrow> tweet_not_found
      | WellFormed i \<Rightarrow>
          (case findById i (tweets s) of
             None \<Rightarrow> tweet_not_found
           | Some tweet \<Rightarrow> (200, TweetFull (populate_parent s tweet))))"

text \<open>DELETE /tweets/:id\<close>

definition delete_handler :: "user_doc \<Rightarrow> path_id \<Rightarrow> store \<Rightarrow> response \<times> store" where
  "delete_handler req_user pid s =
     (case pid of
        Malformed \<Rightarrow> (tweet_not_found, s)
      | WellFormed i \<Rightarrow>
          (case findById i (tweets s) of
             None \<Rightarrow> (tweet_not_found, s)
           | Some tweet \<Rightarrow>
               if user tweet \<noteq> uid req_user
               then ((401, Message ''User not authorized''), s)
               else ((200, Message ''Tweet removed''),
                     s\<lparr>tweets := delete_first (\<lambda>x. tid x = tid tweet) (tweets s)\<rparr>)))"

text \<open>
  \<open>newTweet.save()\<close> of a new document: the schema's validation (\<open>content\<close> at most 280
  characters) and the unique index on \<open>_id\<close> reject the document with an error that is not
  a CastError; otherwise the document is inserted last. The fresh identifier \<open>nid\<close> that
  \<open>new Tweet\<close> draws and the clock are inputs.
\<close>

definition insert_tweet :: "tweet_doc \<Rightarrow> store \<Rightarrow> store option" where
  "insert_tweet t s =
     (if length (content t) > 280 \<or> findById (tid t) (tweets s) \<noteq> None then None
      else Some (s\<lparr>tweets := tweets s @ [t]\<rparr>))"

text \<open>
  The validator \<open>body('content', 'Content is required').not().isEmpty()\<close>: a missing
  field is read as the empty string. Past the validator \<open>req.body.content\<close> is a
  string that is not empty.
\<close>

definition body_field :: "string option \<Rightarrow> string" where
  "body_field c = (case c of None \<Rightarrow> [] | Some v \<Rightarrow> v)"

definition content_errors :: "string option \<Rightarrow> string list" where
  "content_errors c = (if body_field c = [] then [''Content is required''] else [])"

definition upload_path :: "string option \<Rightarrow> string option" where
  "upload_path file = (case file of None \<Rightarrow> None | Some filename \<Rightarrow> Some (''/uploads/'' @ filename))"

text \<open>POST /tweets: \<open>new Tweet({user, content, image})\<close>, the schema's defaults for the rest.\<close>

definition create_handler ::
  "user_doc \<Rightarrow> string option \<Rightarrow> string option \<Rightarrow> oid \<Rightarrow> nat \<Rightarrow> store \<Rightarrow> response \<times> store" where
  "create_handler req_user body_content file nid now s =
     (if content_errors body_content \<noteq> []
      then ((400, ValidationErrors (content_errors body_content)), s)
      else
        (let newTweet = \<lparr>tid = nid, user = uid req_user, content = body_field body_content,
                          image_path = upload_path file, likes = [], retweets = [],
                          parent = None, isReply = False, createdAt = now, updatedAt = now\<rparr>
         in case insert_tweet newTweet s of
              None \<Rightarrow> (server_error, s)
            | Some s' \<Rightarrow> ((200, TweetOut (populate_user s' newTweet)), s')))"

text \<open>POST /tweets/:id/reply\<close>

definition reply_handler ::
  "user_doc \<Rightarrow> path_id \<Rightarrow> string option \<Rightarrow> string option \<Rightarrow> oid \<Rightarrow> nat \<Rightarrow> store
     \<Rightarrow> response \<times> store" where
  "reply_handler req_user pid body_content file nid now s =
     (if content_errors body_content \<noteq> []
      then ((400, ValidationErrors (content_errors body_content)), s)
      else
        (case pid of
           Malformed \<Rightarrow> (tweet_not_found, s)
         | WellFormed i \<Rightarrow>
             (case findById i (tweets s) of
                None \<Rightarrow> (tweet_not_found, s)
              | Some parentTweet \<Rightarrow>
                  (let newReply = \<lparr>tid = nid, user = uid req_user, content = body_field body_content,
                                    image_path = upload_path file, likes = [], retweets = [],
                                    parent = Some i, isReply = True, createdAt = now,
                                    updatedAt = now\<rparr>
                   in case insert_tweet newReply s of
                        None \<Rightarrow> (server_error, s)
                      | Some s' \<Rightarrow> ((200, TweetOut (populate_user s' newReply)), s')))))"

text \<open>
  \<open>.sort({ createdAt: -1 })\<close>: newest first. The store leaves the order of documents
  with equal timestamps open; the model keeps them in natural order (a stable sort).
\<close>

definition newest_first :: "tweet_doc list \<Rightarrow> tweet_doc list" where
  "newest_first ts = sort_key (\<lambda>t. - int (createdAt t)) ts"

text \<open>GET /tweets/:id/replies\<close>

definition replies_handler :: "path_id \<Rightarrow> store \<Rightarrow> response" where
  "replies_handler pid s =
     (case pid of
        Malformed \<Rightarrow> tweet_not_found
      | WellFormed i \<Rightarrow>
          (200, TweetsOut (map (populate_user s)
             (newest_first (filter (\<lambda>t. parent t = Some i \<and> isReply t = True) (tweets s))))))"

text \<open>GET /tweets/user/:userId\<close>

definition user_tweets_handler :: "path_id \<Rightarrow> store \<Rightarrow> response" where
  "user_tweets_handler pid s =
     (case pid of
        Malformed \<Rightarrow> (404, Message ''User not found'')
      | WellFormed i \<Rightarrow>
          (200, TweetsOut (map (populate_user s)
             (newest_first (filter (\<lambda>t. user t = i \<and> isReply t = False) (tweets s))))))"

text \<open>
  JavaScript's \<open>parseInt(string)\<close> with no radix, over mathematical integers: leading
  white space is dropped, then one sign, then the prefix \<open>0x\<close> or \<open>0X\<close> (which selects
  radix 16), and the longest run of digits of the radix is read; no digit gives NaN, which
  is \<open>None\<close> here. A query parameter that is absent is \<open>undefined\<close>, which
  \<open>parseInt\<close> reads as the string \<open>undefined\<close>. The white space below 256 is
  tab, line feed, vertical tab, form feed, carriage return, space and no-break space.

  JavaScript computes with doubles. They are the mathematical integers of this model as
  long as the number read, and the skip computed from it, stay below \<open>2 ^ 53\<close>; what is
  proved about a page number is stated within that range.
\<close>

definition isWhiteSpace :: "char \<Rightarrow> bool" where
  "isWhiteSpace c =
     (c \<in> set [CHR 0x09, CHR 0x0A, CHR 0x0B, CHR 0x0C, CHR 0x0D, CHR 0x20, CHR 0xA0])"

definition digitValue :: "char \<Rightarrow> nat" where
  "digitValue c =
     (let n = (of_char c :: nat)
      in if 48 \<le> n \<and> n \<le> 57 then n - 48
         else if 97 \<le> n \<and> n \<le> 122 then n - 87
         else if 65 \<le> n \<and> n \<le> 90 then n - 55
         else 36)"

definition stripSign :: "string \<Rightarrow> string" where
  "stripSign S = (case S of [] \<Rightarrow> [] | c # r \<Rightarrow> if c = CHR ''+'' \<or> c = CHR ''-'' then r else S)"

definition parseInt :: "string \<Rightarrow> int option" where
  "parseInt inputString =
     (let S = dropWhile isWhiteSpace inputString;
          sign = (case S of [] \<Rightarrow> 1 | c # r \<Rightarrow> if c = CHR ''-'' then - 1 else (1::int));
          S1 = stripSign S;
          hex = (take 2 S1 = ''0x'' \<or> take 2 S1 = ''0X'');
          R = (if hex then 16 else 10);
          S2 = (if hex then drop 2 S1 else S1);
          Z = takeWhile (\<lambda>c. digitValue c < R) S2
      in if Z = [] then None
         else Some (sign * int (foldl (\<lambda>a c. a * R + digitValue c) 0 Z)))"

definition toString :: "string option \<Rightarrow> string" where
  "toString v = (case v of None \<Rightarrow> ''undefined'' | Some x \<Rightarrow> x)"

text \<open>\<open>parseInt(req.query.page) || 1\<close>: NaN and 0 are falsy.\<close>

definition timeline_page :: "string option \<Rightarrow> int" where
  "timeline_page query_page =
     (case parseInt (toString query_page) of
        None \<Rightarrow> 1
      | Some n \<Rightarrow> if n = 0 then 1 else n)"

definition timeline_skip :: "string option \<Rightarrow> int" where
  "timeline_skip query_page = (timeline_page query_page - 1) * 10"

text \<open>The filter of the timeline query.\<close>

definition on_timeline :: "user_doc \<Rightarrow> tweet_doc \<Rightarrow> bool" where
  "on_timeline req_user t =
     ((user t \<in> set (following req_user @ [uid req_user]) \<or> uid req_user \<in> set (retweets t))
      \<and> isReply t = False)"

text \<open>
  GET /tweets. The store rejects a negative \<open>skip\<close> with an error that is not a CastError,
  which the handler's catch turns into 500.
\<close>

definition timeline_handler :: "user_doc \<Rightarrow> string option \<Rightarrow> store \<Rightarrow> response" where
  "timeline_handler req_user query_page s =
     (let limit = 10;
          skip = timeline_skip query_page
      in if skip < 0 then server_error
         else (200, TweetsFull (map (populate_parent s)
                 (take limit (drop (nat skip)
                    (newest_first (filter (on_timeline req_user) (tweets s))))))))"

section \<open>User handlers (routes/users.js)\<close>

text \<open>
  \<open>User.findByIdAndUpdate(id, update)\<close>: the first user document with that identifier
  is updated; no such document is no error.

  Modelled from the spec: models/User.js is not among the sources, so whether the User
  schema sets the option \<open>timestamps\<close> is not known; the spec lists an update timestamp.
  The parameter \<open>stamp\<close> is \<open>Some now\<close>, the time of the update, when the schema sets
  the option (the store then writes the update timestamp with every update), and \<open>None\<close>
  when it does not (the update then leaves the timestamp alone).
\<close>

definition touch :: "nat option \<Rightarrow> user_doc \<Rightarrow> user_doc" where
  "touch stamp u = (case stamp of None \<Rightarrow> u | Some now \<Rightarrow> u\<lparr>userUpdatedAt := now\<rparr>)"

definition findByIdAndUpdate ::
  "oid \<Rightarrow> nat option \<Rightarrow> (user_doc \<Rightarrow> user_doc) \<Rightarrow> store \<Rightarrow> store" where
  "findByIdAndUpdate i stamp f s =
     s\<lparr>users := update_first (\<lambda>u. uid u = i) (\<lambda>u. touch stamp (f u)) (users s)\<rparr>"

text \<open>
  PUT /users/me. The body is a JSON object with string values. \<open>if (name)
  userFields.name = name\<close> keeps a field that is present and not the empty string.
\<close>

record user_fields =
  set_name :: "string option"
  set_bio :: "string option"
  set_location :: "string option"
  set_website :: "string option"

definition truthy :: "string option \<Rightarrow> string option" where
  "truthy v = (case v of None \<Rightarrow> None | Some x \<Rightarrow> if x = [] then None else Some x)"

definition build_user_fields :: "(string \<rightharpoonup> string) \<Rightarrow> user_fields" where
  "build_user_fields req_body =
     \<lparr>set_name = truthy (req_body ''name''), set_bio = truthy (req_body ''bio''),
      set_location = truthy (req_body ''location''),
      set_website = truthy (req_body ''website'')\<rparr>"

definition apply_set :: "user_fields \<Rightarrow> user_doc \<Rightarrow> user_doc" where
  "apply_set userFields u =
     u\<lparr>name := (case set_name userFields of None \<Rightarrow> name u | Some v \<Rightarrow> v),
       bio := (case set_bio userFields of None \<Rightarrow> bio u | Some v \<Rightarrow> v),
       location := (case set_location userFields of None \<Rightarrow> location u | Some v \<Rightarrow> v),
       website := (case set_website userFields of None \<Rightarrow> website u | Some v \<Rightarrow> v)\<rparr>"

definition update_me_handler ::
  "user_doc \<Rightarrow> (string \<rightharpoonup> string) \<Rightarrow> nat option \<Rightarrow> store \<Rightarrow> response \<times> store" where
  "update_me_handler req_user req_body stamp s =
     (let userFields = build_user_fields req_body;
          s' = findByIdAndUpdate (uid req_user) stamp (apply_set userFields) s;
          user = map_option (\<lambda>u. u\<lparr>password := None\<rparr>) (findUserById (uid req_user) (users s'))
      in ((200, UserOut user), s'))"

text \<open>The update operators \<open>$pull\<close> and \<open>$addToSet\<close> on an array field.\<close>

definition pull :: "oid \<Rightarrow> oid list \<Rightarrow> oid list" where
  "pull x xs = filter (\<lambda>y. y \<noteq> x) xs"

definition addToSet :: "oid \<Rightarrow> oid list \<Rightarrow> oid list" where
  "addToSet x xs = (if x \<in> set xs then xs else xs @ [x])"

text \<open>
  POST /users/:id/follow. \<open>req.params.id === req.user.id\<close> and
  \<open>req.user.following.includes(req.params.id)\<close> compare the path parameter as a string;
  \<open>User.findById\<close>, \<open>$pull\<close> and \<open>$addToSet\<close> cast it. The catch of this handler has no
  branch for a CastError: every error is answered with 500.
\<close>

definition follow_handler ::
  "user_doc \<Rightarrow> path_string \<Rightarrow> nat option \<Rightarrow> store \<Rightarrow> response \<times> store" where
  "follow_handler req_user req_id stamp s =
     (if req_id = Canonical (uid req_user)
      then ((400, Message ''You cannot follow yourself''), s)
      else
        (case cast_path req_id of
           Malformed \<Rightarrow> (server_error, s)
         | WellFormed i \<Rightarrow>
             (case findUserById i (users s) of
                None \<Rightarrow> ((404, Message ''User not found''), s)
              | Some userToFollow \<Rightarrow>
                  (let isFollowing = (req_id \<in> set (map Canonical (following req_user)))
                   in if isFollowing
                      then
                        (let s1 = findByIdAndUpdate (uid req_user) stamp
                                    (\<lambda>u. u\<lparr>following := pull i (following u)\<rparr>) s;
                             s2 = findByIdAndUpdate i stamp
                                    (\<lambda>u. u\<lparr>followers := pull (uid req_user) (followers u)\<rparr>) s1
                         in ((200, FollowOut False (uid req_user)), s2))
                      else
                        (let s1 = findByIdAndUpdate (uid req_user) stamp
                                    (\<lambda>u. u\<lparr>following := addToSet i (following u)\<rparr>) s;
                             s2 = findByIdAndUpdate i stamp
                                    (\<lambda>u. u\<lparr>followers := addToSet (uid req_user) (followers u)\<rparr>) s1
                         in ((200, FollowOut True (uid req_user)), s2))))))"

section \<open>Search handler (routes/search.js)\<close>

text \<open>
  The handler hands the query string to the store as the pattern of
  \<open>{ $regex: q, $options: 'i' }\<close>. The model reads the part of the pattern syntax that
  consists of ordinary characters, which match themselves up to case, and the dot, which
  matches any character but a line feed. A pattern that uses another character of the
  pattern syntax (\<open>rx_syntax\<close>) or the character NUL is outside the model:
  \<open>compile_rx\<close> is \<open>None\<close> there, and so is the handler.

  Under the option \<open>i\<close> two characters match when the store's pattern library folds them
  to the same character. Which characters beyond the ASCII letters it folds depends on
  how the library was built, so the case folding is a parameter of the model, \<open>casefold\<close>;
  \<open>lower\<close> folds the ASCII letters alone.
\<close>

datatype rx_atom = Lit char | AnyChar

definition rx_syntax :: string where
  "rx_syntax = CHR 0x5C # ''^$|?*+()[]{}''"

definition rx_unmodelled :: "char \<Rightarrow> bool" where
  "rx_unmodelled c = (c \<in> set rx_syntax \<or> c = CHR 0x00)"

definition compile_rx :: "string \<Rightarrow> rx_atom list option" where
  "compile_rx q =
     (if list_ex rx_unmodelled q then None
      else Some (map (\<lambda>c. if c = CHR ''.'' then AnyChar else Lit c) q))"

definition lower :: "char \<Rightarrow> char" where
  "lower c =
     (let n = (of_char c :: nat) in if 65 \<le> n \<and> n \<le> 90 then char_of (n + 32) else c)"

definition atom_matches :: "(char \<Rightarrow> char) \<Rightarrow> rx_atom \<Rightarrow> char \<Rightarrow> bool" where
  "atom_matches casefold a c = (case a of Lit l \<Rightarrow> casefold l = casefold c | AnyChar \<Rightarrow> c \<noteq> CHR 0x0A)"

fun matches_prefix :: "(char \<Rightarrow> char) \<Rightarrow> rx_atom list \<Rightarrow> string \<Rightarrow> bool" where
  "matches_prefix casefold [] cs = True"
| "matches_prefix casefold (a # as) [] = False"
| "matches_prefix casefold (a # as) (c # cs) = (atom_matches casefold a c \<and> matches_prefix casefold as cs)"

text \<open>An unanchored pattern matches when it matches at some position of the subject.\<close>

fun rx_search :: "(char \<Rightarrow> char) \<Rightarrow> rx_atom list \<Rightarrow> string \<Rightarrow> bool" where
  "rx_search casefold as [] = matches_prefix casefold as []"
| "rx_search casefold as (c # cs) = (matches_prefix casefold as (c # cs) \<or> rx_search casefold as cs)"

definition select_public :: "user_doc \<Rightarrow> user_doc" where
  "select_public u = u\<lparr>email := None, password := None\<rparr>"

text \<open>GET /search\<close>

definition search_handler ::
  "(char \<Rightarrow> char) \<Rightarrow> string option \<Rightarrow> store \<Rightarrow> response option" where
  "search_handler casefold query_q s =
     (case query_q of
        None \<Rightarrow> Some (400, Message ''Search query is required'')
      | Some q \<Rightarrow>
          if q = [] then Some (400, Message ''Search query is required'')
          else
            (case compile_rx q of
               None \<Rightarrow> None
             | Some rx \<Rightarrow>
                 (let found_users =
                        map select_public
                          (take 10
                             (filter (\<lambda>u. rx_search casefold rx (name u) \<or>
                                          rx_search casefold rx (username u))
                                (users s)));
                      found_tweets =
                        map (populate_user s)
                          (take 20
                             (newest_first
                                (filter (\<lambda>t. rx_search casefold rx (content t)) (tweets s))))
                  in Some (200, SearchOut found_users found_tweets))))"

text \<open>
  The spec's reading of the search: \<open>q\<close> is contained in the text as a substring, up to
  case.
\<close>

definition contains_ci :: "(char \<Rightarrow> char) \<Rightarrow> string \<Rightarrow> string \<Rightarrow> bool" where
  "contains_ci casefold q txt = sublist (map casefold q) (map casefold txt)"

section \<open>The retweet operation as the spec words it\<close>

text \<open>
  The spec describes the retweet operation as the like operation with the retweets list in
  the place of the likes list. \<open>swap_store\<close> exchanges the two lists of every tweet, and
  \<open>as_retweet\<close> renames the response's \<open>isLiked\<close> to \<open>isRetweeted\<close>.
\<close>

definition swap_lists :: "tweet_doc \<Rightarrow> tweet_doc" where
  "swap_lists t = t\<lparr>likes := retweets t, retweets := likes t\<rparr>"

definition swap_store :: "store \<Rightarrow> store" where
  "swap_store s = s\<lparr>tweets := map swap_lists (tweets s)\<rparr>"

fun as_retweet :: "response \<Rightarrow> response" where
  "as_retweet (code, LikeOut b u) = (code, RetweetOut b u)"
| "as_retweet r = r"

section \<open>The page parameter as the spec words it\<close>



text \<open>The decimal numeral of a page number, as a page parameter.\<close>

fun decimal :: "nat \<Rightarrow> string" where
  "decimal n =
     (if n < 10 then [char_of (48 + n)] else decimal (n div 10) @ [char_of (48 + n mod 10)])"

declare decimal.simps [simp del]

section \<open>Plain search queries\<close>

text \<open>
  A query is plain when it is not empty and none of its characters belongs to the pattern
  syntax or is NUL: no dot, no character of \<open>rx_syntax\<close>, no \<open>CHR 0x00\<close>.
\<close>

definition plain_query :: "string \<Rightarrow> bool" where
  "plain_query q = (q \<noteq> [] \<and> list_all (\<lambda>c. \<not> rx_unmodelled c \<and> c \<noteq> CHR ''.'') q)"

section \<open>Sample data\<close>

text \<open>Documents for the concrete instances of the theorems below.\<close>

definition demo_user :: "oid \<Rightarrow> string \<Rightarrow> oid list \<Rightarrow> user_doc" where
  "demo_user i n fs =
     \<lparr>uid = i, name = n, username = n, email = Some (n @ ''@example.org''),
      password = Some ''hash'', bio = [], location = [], website = [], profileImage = [],
      coverImage = [], followers = [], following = fs, userCreatedAt = 0,
      userUpdatedAt = 0\<rparr>"

definition demo_tweet :: "oid \<Rightarrow> oid \<Rightarrow> string \<Rightarrow> nat \<Rightarrow> tweet_doc" where
  "demo_tweet i owner txt at =
     \<lparr>tid = i, user = owner, content = txt, image_path = None, likes = [], retweets = [],
      parent = None, isReply = False, createdAt = at, updatedAt = at\<rparr>"

definition demo_timeline :: store where
  "demo_timeline =
     \<lparr>tweets =
        map (\<lambda>i. demo_tweet i 3 ''post'' (100 + i)) [1, 2, 3, 4, 5, 6, 7, 8, 9, 10, 11, 12]
        @ [demo_tweet 13 9 ''stranger'' 200,
           (demo_tweet 14 3 ''answer'' 201)\<lparr>parent := Some 1, isReply := True\<rparr>],
      users = []\<rparr>"

definition demo_search :: store where
  "demo_search =
     \<lparr>tweets = [demo_tweet 1 5 ''Banana'' 10, demo_tweet 2 5 ''hello'' 11],
      users = [demo_user 3 ''ann'' [], demo_user 5 ''bob'' []]\<rparr>"

section \<open>Facts about the store\<close>

lemma find_update_first:
  assumes "\<And>x. P x \<Longrightarrow> P (f x)"
  shows "find P (update_first P f xs) = map_option f (find P xs)"
  using assms by (induction xs) auto

lemma findById_save_tweet:
  "findById (tid t) (tweets (save_tweet now t s)) =
     map_option (\<lambda>_. t\<lparr>updatedAt := now\<rparr>) (findById (tid t) (tweets s))"
proof -
  have "find (\<lambda>x. tid x = tid t)
          (update_first (\<lambda>x. tid x = tid t) (\<lambda>_. t\<lparr>updatedAt := now\<rparr>) (tweets s)) =
        map_option (\<lambda>_. t\<lparr>updatedAt := now\<rparr>) (find (\<lambda>x. tid x = tid t) (tweets s))"
    by (rule find_update_first) simp
  then show ?thesis by (simp add: findById_def save_tweet_def)
qed

lemma findById_tid: "findById i ts = Some t \<Longrightarrow> tid t = i"
  by (auto simp: findById_def find_Some_iff)

section \<open>Like and unlike\<close>

lemma like_once:
  assumes "findById i (tweets s) = Some t"
  shows "like_handler req_user (WellFormed i) now s =
    ((200, LikeOut (uid req_user \<notin> set (likes t)) (uid req_user)),
     save_tweet now (t\<lparr>likes := (if uid req_user \<in> set (likes t)
                               then filter (\<lambda>x. x \<noteq> uid req_user) (likes t)
                               else uid req_user # likes t)\<rparr>) s)"
  using assms by (simp add: like_handler_def Let_def)

lemma likes_after_like:
  assumes "findById i (tweets s) = Some t"
  shows "findById i (tweets (snd (like_handler req_user (WellFormed i) now s))) =
     Some (t\<lparr>likes := (if uid req_user \<in> set (likes t)
                        then filter (\<lambda>x. x \<noteq> uid req_user) (likes t)
                        else uid req_user # likes t), updatedAt := now\<rparr>)"
proof -
  let ?t' = "t\<lparr>likes := (if uid req_user \<in> set (likes t)
                          then filter (\<lambda>x. x \<noteq> uid req_user) (likes t)
                          else uid req_user # likes t)\<rparr>"
  have i: "tid ?t' = i" using findById_tid [OF assms] by simp
  have "findById (tid ?t') (tweets (save_tweet now ?t' s)) =
     map_option (\<lambda>_. ?t'\<lparr>updatedAt := now\<rparr>) (findById (tid ?t') (tweets s))"
    by (rule findById_save_tweet)
  then show ?thesis using assms i by (simp add: like_once [OF assms])
qed

text \<open>
  C1. For a caller \<open>u\<close> and an existing tweet \<open>t\<close>, POST /tweets/:id/like answers 200
  with the new membership state and the caller's identifier; the stored likes list is
  \<open>u\<close> put in front when \<open>u\<close> was absent, and the list without \<open>u\<close> when it was
  present, so membership is toggled. When \<open>u\<close> had not liked \<open>t\<close>, a second call
  restores the original likes list; in every case the list after the second call differs
  from the list after the first, so a single call is not idempotent.
\<close>

theorem like_toggle:
  assumes "findById i (tweets s) = Some t"
  shows "(let u = uid req_user;
              r1 = like_handler req_user (WellFormed i) now s;
              r2 = like_handler req_user (WellFormed i) now' (snd r1);
              likes1 = map_option likes (findById i (tweets (snd r1)));
              likes2 = map_option likes (findById i (tweets (snd r2)))
          in fst r1 = (200, LikeOut (u \<notin> set (likes t)) u)
           \<and> likes1 = Some (if u \<in> set (likes t) then filter (\<lambda>x. x \<noteq> u) (likes t)
                             else u # likes t)
           \<and> (\<exists>l. likes1 = Some l \<and> (u \<in> set l) = (u \<notin> set (likes t)))
           \<and> (u \<notin> set (likes t) \<longrightarrow> likes2 = Some (likes t))
           \<and> likes2 \<noteq> likes1)"
proof -
  define u where "u = uid req_user"
  define s1 where "s1 = snd (like_handler req_user (WellFormed i) now s)"
  define s2 where "s2 = snd (like_handler req_user (WellFormed i) now' s1)"
  define l1 where
    "l1 = (if u \<in> set (likes t) then filter (\<lambda>x. x \<noteq> u) (likes t) else u # likes t)"
  define l2 where "l2 = (if u \<in> set l1 then filter (\<lambda>x. x \<noteq> u) l1 else u # l1)"
  have a: "findById i (tweets s1) = Some (t\<lparr>likes := l1, updatedAt := now\<rparr>)"
    unfolding s1_def l1_def u_def by (rule likes_after_like [OF assms])
  have b: "map_option likes (findById i (tweets s2)) = Some l2"
    unfolding s2_def using likes_after_like [OF a, of req_user now']
    by (simp add: l2_def u_def)
  have r: "fst (like_handler req_user (WellFormed i) now s) =
             (200, LikeOut (u \<notin> set (likes t)) u)"
    by (simp add: like_once [OF assms] u_def)
  have m: "(u \<in> set l1) = (u \<notin> set (likes t))"
    by (simp add: l1_def)
  have restore: "u \<notin> set (likes t) \<Longrightarrow> l2 = likes t"
    by (auto simp: l1_def l2_def filter_id_conv)
  have ne: "l2 \<noteq> l1"
  proof (cases "u \<in> set l1")
    case True
    then have "u \<notin> set l2" by (simp add: l2_def)
    with True show ?thesis by auto
  next
    case False
    then have "u \<in> set l2" by (simp add: l2_def)
    with False show ?thesis by auto
  qed
  show ?thesis
    unfolding Let_def
    using a b r m restore ne l1_def
    by (auto simp add: s1_def [symmetric] s2_def [symmetric] u_def [symmetric])
qed

text \<open>
  The theorem at a store with one tweet, liked by user 5, and the caller 3: the first call
  reports liked and stores \<open>[3, 5]\<close>, the second reports unliked and stores \<open>[5]\<close>.
\<close>

theorem like_toggle_witness:
  "(let s = \<lparr>tweets = [(demo_tweet 1 7 ''hi'' 10)\<lparr>likes := [5]\<rparr>], users = []\<rparr>;
        me = demo_user 3 ''ann'' [];
        r1 = like_handler me (WellFormed 1) 20 s;
        r2 = like_handler me (WellFormed 1) 30 (snd r1)
    in findById 1 (tweets s) = Some ((demo_tweet 1 7 ''hi'' 10)\<lparr>likes := [5]\<rparr>)
     \<and> fst r1 = (200, LikeOut True 3)
     \<and> map_option likes (findById 1 (tweets (snd r1))) = Some [3, 5]
     \<and> fst r2 = (200, LikeOut False 3)
     \<and> map_option likes (findById 1 (tweets (snd r2))) = Some [5])"
  using like_toggle [of 1 "\<lparr>tweets = [(demo_tweet 1 7 ''hi'' 10)\<lparr>likes := [5]\<rparr>], users = []\<rparr>"
      "(demo_tweet 1 7 ''hi'' 10)\<lparr>likes := [5]\<rparr>" "demo_user 3 ''ann'' []" 20 30]
  by (simp add: findById_def like_handler_def save_tweet_def Let_def demo_user_def
      demo_tweet_def)

section \<open>Retweet and unretweet\<close>

lemma swap_lists_swap: "swap_lists (swap_lists t) = t"
  by (simp add: swap_lists_def)

lemma tid_swap_lists: "tid (swap_lists t) = tid t"
  by (simp add: swap_lists_def)

lemma swap_lists_updatedAt:
  "(swap_lists t)\<lparr>updatedAt := now\<rparr> = swap_lists (t\<lparr>updatedAt := now\<rparr>)"
  by (simp add: swap_lists_def)

lemma findById_map_swap:
  "findById i (map swap_lists ts) = map_option swap_lists (findById i ts)"
  by (induction ts) (auto simp: findById_def tid_swap_lists)

lemma update_first_map_swap:
  "map swap_lists (update_first (\<lambda>x. tid x = j) (\<lambda>_. swap_lists t) (map swap_lists ts)) =
     update_first (\<lambda>x. tid x = j) (\<lambda>_. t) ts"
  by (induction ts) (auto simp: tid_swap_lists swap_lists_swap comp_def)

lemma swap_store_swap: "swap_store (swap_store s) = s"
  by (simp add: swap_store_def swap_lists_swap comp_def)

lemma swap_store_save:
  "swap_store (save_tweet now (swap_lists t) (swap_store s)) = save_tweet now t s"
  by (simp add: swap_store_def save_tweet_def tid_swap_lists swap_lists_updatedAt
      update_first_map_swap)

text \<open>
  C9. POST /tweets/:id/retweet is the like operation with the retweets list in the place of
  the likes list: for every caller, path identifier, clock and store, retweeting is liking
  in the store with the two lists exchanged, exchanging them back, and reporting
  \<open>isRetweeted\<close> where the like reports \<open>isLiked\<close>. This covers the 404 answers too.
\<close>

theorem retweet_is_like_on_retweets:
  "retweet_handler req_user pid now s =
     (case like_handler req_user pid now (swap_store s) of
        (r, s') \<Rightarrow> (as_retweet r, swap_store s'))"
proof (cases pid)
  case Malformed
  with swap_store_swap [of s] show ?thesis
    by (simp add: retweet_handler_def like_handler_def tweet_not_found_def)
next
  case (WellFormed i)
  note ss = swap_store_swap [of s]
  show ?thesis
  proof (cases "findById i (tweets s)")
    case None
    with WellFormed ss show ?thesis
      by (simp add: retweet_handler_def like_handler_def tweet_not_found_def
          swap_store_def findById_map_swap)
  next
    case (Some t)
    have f: "findById i (tweets (swap_store s)) = Some (swap_lists t)"
      using Some by (simp add: swap_store_def findById_map_swap)
    have l: "likes (swap_lists t) = retweets t" by (simp add: swap_lists_def)
    have e1: "(swap_lists t)\<lparr>likes := filter (\<lambda>x. x \<noteq> uid req_user) (retweets t)\<rparr> =
              swap_lists (t\<lparr>retweets := filter (\<lambda>x. x \<noteq> uid req_user) (retweets t)\<rparr>)"
      by (simp add: swap_lists_def)
    have e2: "(swap_lists t)\<lparr>likes := uid req_user # retweets t\<rparr> =
              swap_lists (t\<lparr>retweets := uid req_user # retweets t\<rparr>)"
      by (simp add: swap_lists_def)
    show ?thesis
      using WellFormed Some f l
      by (simp add: retweet_handler_def like_handler_def Let_def e1 e2 swap_store_save)
  qed
qed

text \<open>
  The theorem at a tweet that user 5 likes and nobody has retweeted: the caller 3 retweets
  it, and the likes list is left alone.
\<close>

theorem retweet_is_like_on_retweets_witness:
  "(let s = \<lparr>tweets = [(demo_tweet 1 7 ''hi'' 10)\<lparr>likes := [5]\<rparr>], users = []\<rparr>;
        r = retweet_handler (demo_user 3 ''ann'' []) (WellFormed 1) 20 s
    in fst r = (200, RetweetOut True 3)
     \<and> map_option retweets (findById 1 (tweets (snd r))) = Some [3]
     \<and> map_option likes (findById 1 (tweets (snd r))) = Some [5])"
  unfolding retweet_is_like_on_retweets
  by (simp add: findById_def like_handler_def save_tweet_def Let_def demo_user_def
      demo_tweet_def swap_store_def swap_lists_def)

section \<open>Deleting a tweet\<close>

lemma delete_first_distinct:
  "distinct (map tid ts) \<Longrightarrow>
     delete_first (\<lambda>x. tid x = i) ts = filter (\<lambda>x. tid x \<noteq> i) ts"
proof (induction ts)
  case Nil
  then show ?case by simp
next
  case (Cons a ts)
  show ?case
  proof (cases "tid a = i")
    case True
    with Cons.prems have "\<forall>x\<in>set ts. tid x \<noteq> i" by (auto simp: image_iff)
    then have "filter (\<lambda>x. tid x \<noteq> i) ts = ts" by (simp add: filter_id_conv)
    with True show ?thesis by simp
  next
    case False
    with Cons show ?thesis by simp
  qed
qed

lemma findById_filter_other: "findById i (filter (\<lambda>x. tid x \<noteq> i) ts) = None"
  by (simp add: findById_def find_None_iff)

lemma delete_owner:
  assumes "findById i (tweets s) = Some t" and "user t = uid req_user"
  shows "delete_handler req_user (WellFormed i) s =
           ((200, Message ''Tweet removed''),
            s\<lparr>tweets := delete_first (\<lambda>x. tid x = i) (tweets s)\<rparr>)"
  using assms findById_tid [OF assms(1)] by (simp add: delete_handler_def)

lemma delete_other:
  assumes "findById i (tweets s) = Some t" and "user t \<noteq> uid req_user"
  shows "delete_handler req_user (WellFormed i) s = ((401, Message ''User not authorized''), s)"
  using assms by (simp add: delete_handler_def)

text \<open>
  C3. For a caller and an existing tweet \<open>t\<close> (in a store whose tweets have distinct
  identifiers): when the caller is not the owner of \<open>t\<close>, DELETE /tweets/:id answers 401
  and leaves the store as it is, so GET /tweets/:id still returns \<open>t\<close>; when the caller
  is the owner, it answers 200, GET /tweets/:id then answers 404, and exactly the
  document with that identifier is gone: the users and every other tweet, the replies to
  \<open>t\<close> among them, are kept.
\<close>

theorem delete_by_owner_only:
  assumes "findById i (tweets s) = Some t" and "distinct (map tid (tweets s))"
  shows "(case delete_handler req_user (WellFormed i) s of
            (r, s') \<Rightarrow>
              if user t \<noteq> uid req_user
              then fst r = 401 \<and> s' = s
                 \<and> get_tweet_handler (WellFormed i) s' = (200, TweetFull (populate_parent s t))
              else fst r = 200
                 \<and> get_tweet_handler (WellFormed i) s' = (404, Message ''Tweet not found'')
                 \<and> tweets s' = filter (\<lambda>x. tid x \<noteq> i) (tweets s)
                 \<and> users s' = users s
                 \<and> filter (\<lambda>x. parent x = Some i \<and> tid x \<noteq> i) (tweets s') =
                   filter (\<lambda>x. parent x = Some i \<and> tid x \<noteq> i) (tweets s))"
proof (cases "user t = uid req_user")
  case True
  have d: "delete_first (\<lambda>x. tid x = i) (tweets s) = filter (\<lambda>x. tid x \<noteq> i) (tweets s)"
    by (rule delete_first_distinct [OF assms(2)])
  have k': "filter (\<lambda>x. tid x \<noteq> i \<and> parent x = Some i \<and> tid x \<noteq> i) (tweets s) =
           filter (\<lambda>x. parent x = Some i \<and> tid x \<noteq> i) (tweets s)"
    by (auto intro: filter_cong)
  from True show ?thesis
    by (simp add: delete_owner [OF assms(1) True] d get_tweet_handler_def
        findById_filter_other tweet_not_found_def k')
next
  case False
  then show ?thesis
    using assms(1) by (simp add: delete_other [OF assms(1) False] get_tweet_handler_def)
qed

text \<open>
  The theorem at a store with tweet 1 of user 3 and a reply 2 of user 5: user 5 may not
  delete tweet 1, user 3 may, and the reply stays.
\<close>

theorem delete_by_owner_only_witness:
  "(let s = \<lparr>tweets = [demo_tweet 1 3 ''post'' 10,
                       (demo_tweet 2 5 ''answer'' 11)\<lparr>parent := Some 1, isReply := True\<rparr>],
             users = []\<rparr>;
        r_other = delete_handler (demo_user 5 ''bob'' []) (WellFormed 1) s;
        r_owner = delete_handler (demo_user 3 ''ann'' []) (WellFormed 1) s
    in fst (fst r_other) = 401 \<and> snd r_other = s
     \<and> fst (get_tweet_handler (WellFormed 1) (snd r_other)) = 200
     \<and> fst (fst r_owner) = 200
     \<and> get_tweet_handler (WellFormed 1) (snd r_owner) = (404, Message ''Tweet not found'')
     \<and> tweets (snd r_owner) =
         [(demo_tweet 2 5 ''answer'' 11)\<lparr>parent := Some 1, isReply := True\<rparr>])"
  using
    delete_by_owner_only [of 1
      "\<lparr>tweets = [demo_tweet 1 3 ''post'' 10,
                  (demo_tweet 2 5 ''answer'' 11)\<lparr>parent := Some 1, isReply := True\<rparr>],
        users = []\<rparr>" "demo_tweet 1 3 ''post'' 10" "demo_user 5 ''bob'' []"]
    delete_by_owner_only [of 1
      "\<lparr>tweets = [demo_tweet 1 3 ''post'' 10,
                  (demo_tweet 2 5 ''answer'' 11)\<lparr>parent := Some 1, isReply := True\<rparr>],
        users = []\<rparr>" "demo_tweet 1 3 ''post'' 10" "demo_user 3 ''ann'' []"]
  by (simp add: findById_def demo_tweet_def demo_user_def Let_def split: prod.splits)

section \<open>Malformed path identifiers\<close>

text \<open>
  The handlers of routes/tweets.js answer a malformed path identifier with 404 (the reply
  handler once its validator has passed).
\<close>

lemma tweet_handlers_malformed_not_found:
  "fst (get_tweet_handler Malformed s) = 404"
  "fst (fst (delete_handler req_user Malformed s)) = 404"
  "fst (fst (like_handler req_user Malformed now s)) = 404"
  "fst (fst (retweet_handler req_user Malformed now s)) = 404"
  "content_errors c = [] \<Longrightarrow> fst (fst (reply_handler req_user Malformed c file nid now s)) = 404"
  "fst (replies_handler Malformed s) = 404"
  "fst (user_tweets_handler Malformed s) = 404"
  by (simp_all add: get_tweet_handler_def delete_handler_def like_handler_def
      retweet_handler_def reply_handler_def replies_handler_def user_tweets_handler_def
      tweet_not_found_def)

text \<open>
  C6. The claim is that every handler that looks an entity up by a path identifier answers
  a malformed identifier with 404 and not with 500. The follow handler does not: for every
  caller and store, POST /users/:id/follow with a path parameter that cannot be cast to an
  identifier answers 500 and leaves the store unchanged.
\<close>

theorem follow_malformed_is_server_error:
  "cast_path Uncastable = Malformed
   \<and> follow_handler req_user Uncastable stamp s = ((500, Text ''Server error''), s)"
  by (simp add: follow_handler_def cast_path_def server_error_def)

section \<open>Follow and unfollow\<close>

lemma find_update_first_uid:
  assumes "\<And>u. uid (g u) = uid u"
  shows "find (\<lambda>u. uid u = j) (update_first (\<lambda>u. uid u = i) g us) =
           (if j = i then map_option g (find (\<lambda>u. uid u = i) us)
            else find (\<lambda>u. uid u = j) us)"
  using assms by (induction us) auto

lemma touch_fields:
  "uid (touch stamp u) = uid u"
  "following (touch stamp u) = following u"
  "followers (touch stamp u) = followers u"
  by (simp_all add: touch_def split: option.splits)

lemma findUserById_update:
  assumes "\<And>u. uid (f u) = uid u"
  shows "findUserById j (users (findByIdAndUpdate i stamp f s)) =
           (if j = i
            then map_option (\<lambda>u. touch stamp (f u)) (findUserById i (users s))
            else findUserById j (users s))"
proof -
  have "\<And>u. uid (touch stamp (f u)) = uid u" using assms by (simp add: touch_fields)
  then show ?thesis
    unfolding findUserById_def findByIdAndUpdate_def
    by (simp add: find_update_first_uid [where g = "\<lambda>u. touch stamp (f u)"])
qed

text \<open>
  The handler past its two lookups: \<open>isFollowing\<close> is decided on the string, the updates
  are made with the identifier \<open>t\<close> that the string is cast to.
\<close>

lemma follow_run:
  assumes "req_id \<noteq> Canonical (uid req_user)"
    and "cast_path req_id = WellFormed t"
    and "findUserById t (users s) = Some target"
  shows "follow_handler req_user req_id stamp s =
     ((200, FollowOut (req_id \<notin> Canonical ` set (following req_user)) (uid req_user)),
      findByIdAndUpdate t stamp
        (\<lambda>u. u\<lparr>followers :=
                 (if req_id \<in> Canonical ` set (following req_user)
                  then filter (\<lambda>y. y \<noteq> uid req_user) (followers u)
                  else if uid req_user \<in> set (followers u) then followers u
                  else followers u @ [uid req_user])\<rparr>)
        (findByIdAndUpdate (uid req_user) stamp
           (\<lambda>u. u\<lparr>following :=
                    (if req_id \<in> Canonical ` set (following req_user)
                     then filter (\<lambda>y. y \<noteq> t) (following u)
                     else if t \<in> set (following u) then following u
                     else following u @ [t])\<rparr>) s))"
  using assms by (simp add: follow_handler_def Let_def pull_def addToSet_def)

lemma follow_lists_after:
  assumes "req_id \<noteq> Canonical (uid req_user)"
    and "cast_path req_id = WellFormed t"
    and "findUserById t (users s) = Some target"
    and "t \<noteq> uid req_user"
  shows "map_option following
           (findUserById (uid req_user)
              (users (snd (follow_handler req_user req_id stamp s)))) =
         map_option
           (\<lambda>u. if req_id \<in> Canonical ` set (following req_user)
                then filter (\<lambda>y. y \<noteq> t) (following u)
                else if t \<in> set (following u) then following u
                else following u @ [t])
           (findUserById (uid req_user) (users s))"
    and "map_option followers
           (findUserById t (users (snd (follow_handler req_user req_id stamp s)))) =
         Some (if req_id \<in> Canonical ` set (following req_user)
               then filter (\<lambda>y. y \<noteq> uid req_user) (followers target)
               else if uid req_user \<in> set (followers target) then followers target
               else followers target @ [uid req_user])"
    and "findUserById t (users (snd (follow_handler req_user req_id stamp s))) \<noteq> None"
  using assms(3,4)
  by (simp_all add: follow_run [OF assms(1-3)] findUserById_update touch_fields
      option.map_comp comp_def)

text \<open>
  With the path parameter in the canonical spelling the handler does what the spec says:
  the caller's own identifier is answered with 400 and a missing target with 404, both
  leaving the store as it is; otherwise the answer is 200 with the new state and the
  caller's identifier, the target is added at the end of the caller's stored following
  list unless it is there, and the caller to the target's followers list, when the
  caller's follow list does not hold the target, and every occurrence is removed from both
  lists when it does. A second request with the same follow list of the caller leaves both
  lists as the first left them.
\<close>

lemma follow_canonical_toggle:
  "follow_handler req_user (Canonical (uid req_user)) stamp s =
     ((400, Message ''You cannot follow yourself''), s)
   \<and> (t \<noteq> uid req_user \<longrightarrow> findUserById t (users s) = None \<longrightarrow>
        follow_handler req_user (Canonical t) stamp s = ((404, Message ''User not found''), s))
   \<and> (t \<noteq> uid req_user \<longrightarrow> findUserById t (users s) = Some target \<longrightarrow>
        (let c = uid req_user;
             isFollowing = (t \<in> set (following req_user));
             r1 = follow_handler req_user (Canonical t) stamp s;
             r2 = follow_handler req_user (Canonical t) stamp' (snd r1)
         in fst r1 = (200, FollowOut (\<not> isFollowing) c)
          \<and> map_option following (findUserById c (users (snd r1))) =
              map_option
                (\<lambda>u. if isFollowing then filter (\<lambda>y. y \<noteq> t) (following u)
                     else if t \<in> set (following u) then following u
                     else following u @ [t])
                (findUserById c (users s))
          \<and> map_option followers (findUserById t (users (snd r1))) =
              Some (if isFollowing then filter (\<lambda>y. y \<noteq> c) (followers target)
                    else if c \<in> set (followers target) then followers target
                    else followers target @ [c])
          \<and> map_option following (findUserById c (users (snd r2))) =
              map_option following (findUserById c (users (snd r1)))
          \<and> map_option followers (findUserById t (users (snd r2))) =
              map_option followers (findUserById t (users (snd r1)))))"
proof -
  have p400: "follow_handler req_user (Canonical (uid req_user)) stamp s =
     ((400, Message ''You cannot follow yourself''), s)"
    by (simp add: follow_handler_def)
  have p404: "follow_handler req_user (Canonical t) stamp s =
                ((404, Message ''User not found''), s)"
    if "t \<noteq> uid req_user" "findUserById t (users s) = None"
    using that by (simp add: follow_handler_def cast_path_def)
  have toggle: "(let c = uid req_user;
             isFollowing = (t \<in> set (following req_user));
             r1 = follow_handler req_user (Canonical t) stamp s;
             r2 = follow_handler req_user (Canonical t) stamp' (snd r1)
         in fst r1 = (200, FollowOut (\<not> isFollowing) c)
          \<and> map_option following (findUserById c (users (snd r1))) =
              map_option
                (\<lambda>u. if isFollowing then filter (\<lambda>y. y \<noteq> t) (following u)
                     else if t \<in> set (following u) then following u
                     else following u @ [t])
                (findUserById c (users s))
          \<and> map_option followers (findUserById t (users (snd r1))) =
              Some (if isFollowing then filter (\<lambda>y. y \<noteq> c) (followers target)
                    else if c \<in> set (followers target) then followers target
                    else followers target @ [c])
          \<and> map_option following (findUserById c (users (snd r2))) =
              map_option following (findUserById c (users (snd r1)))
          \<and> map_option followers (findUserById t (users (snd r2))) =
              map_option followers (findUserById t (users (snd r1))))"
    if ne: "t \<noteq> uid req_user" and ex: "findUserById t (users s) = Some target"
  proof -
    define s1 where "s1 = snd (follow_handler req_user (Canonical t) stamp s)"
    have n: "Canonical t \<noteq> Canonical (uid req_user)" using ne by simp
    have c: "cast_path (Canonical t) = WellFormed t" by (simp add: cast_path_def)
    have m: "(Canonical t \<in> Canonical ` set (following req_user)) =
             (t \<in> set (following req_user))"
      by auto
    note a = follow_lists_after [OF n c ex ne, of stamp, folded s1_def, unfolded m]
    from a(3) obtain target1 where ex1: "findUserById t (users s1) = Some target1"
      by auto
    note b = follow_lists_after [OF n c ex1 ne, of stamp', unfolded m]
    have f1: "followers target1 =
                (if t \<in> set (following req_user)
                 then filter (\<lambda>y. y \<noteq> uid req_user) (followers target)
                 else if uid req_user \<in> set (followers target) then followers target
                 else followers target @ [uid req_user])"
      using a(2) ex1 by simp
    have r: "fst (follow_handler req_user (Canonical t) stamp s) =
               (200, FollowOut (t \<notin> set (following req_user)) (uid req_user))"
      by (simp add: follow_run [OF n c ex] m)
    have again1: "map_option following (findUserById (uid req_user)
                    (users (snd (follow_handler req_user (Canonical t) stamp' s1)))) =
                  map_option following (findUserById (uid req_user) (users s1))"
    proof (cases "findUserById (uid req_user) (users s)")
      case None
      with a(1) have "findUserById (uid req_user) (users s1) = None" by simp
      with b(1) show ?thesis by simp
    next
      case (Some u)
      with a(1) obtain u1 where u1: "findUserById (uid req_user) (users s1) = Some u1"
        and fu1: "following u1 =
                    (if t \<in> set (following req_user) then filter (\<lambda>y. y \<noteq> t) (following u)
                     else if t \<in> set (following u) then following u
                     else following u @ [t])"
        by auto
      from b(1) u1 fu1 show ?thesis by auto
    qed
    have again2: "map_option followers (findUserById t
                    (users (snd (follow_handler req_user (Canonical t) stamp' s1)))) =
                  map_option followers (findUserById t (users s1))"
      using b(2) ex1 f1 by auto
    show ?thesis
      unfolding Let_def s1_def [symmetric]
      using r a(1) a(2) again1 again2 by simp
  qed
  from p400 p404 toggle show ?thesis by blast
qed

text \<open>
  C2. The claim is that the follow handler rejects the caller's own identifier with 400
  and unfollows a target that the caller follows. It does so only when the path parameter
  is the canonical spelling of the identifier. With another spelling of the caller's own
  identifier the string test against \<open>req.user.id\<close> fails, \<open>User.findById\<close> finds the
  caller, and the handler answers 200 and stores the caller in the caller's own following
  and followers lists. With another spelling of any other existing user the string test
  against the caller's follow list fails, whether or not the caller follows that user: the
  handler answers that the caller now follows the user and adds to both lists, so a
  followed user is not unfollowed.
\<close>

theorem follow_respelled_bypasses_string_tests:
  "(findUserById (uid req_user) (users s) = Some me \<longrightarrow>
      (let c = uid req_user;
           r = follow_handler req_user (Respelled c) stamp s;
           me' = findUserById c (users (snd r))
       in fst r = (200, FollowOut True c)
        \<and> map_option following me' =
            Some (if c \<in> set (following me) then following me else following me @ [c])
        \<and> map_option followers me' =
            Some (if c \<in> set (followers me) then followers me else followers me @ [c])
        \<and> (\<exists>u. me' = Some u \<and> c \<in> set (following u) \<and> c \<in> set (followers u))))
   \<and> (t \<noteq> uid req_user \<longrightarrow> findUserById t (users s) = Some target \<longrightarrow>
      (let c = uid req_user;
           r = follow_handler req_user (Respelled t) stamp s
       in fst r = (200, FollowOut True c)
        \<and> map_option following (findUserById c (users (snd r))) =
            map_option
              (\<lambda>u. if t \<in> set (following u) then following u else following u @ [t])
              (findUserById c (users s))
        \<and> map_option followers (findUserById t (users (snd r))) =
            Some (if c \<in> set (followers target) then followers target
                  else followers target @ [c])))"
proof -
  have m: "Respelled i \<notin> Canonical ` set xs" for i xs by auto
  have self: "(let c = uid req_user;
           r = follow_handler req_user (Respelled c) stamp s;
           me' = findUserById c (users (snd r))
       in fst r = (200, FollowOut True c)
        \<and> map_option following me' =
            Some (if c \<in> set (following me) then following me else following me @ [c])
        \<and> map_option followers me' =
            Some (if c \<in> set (followers me) then followers me else followers me @ [c])
        \<and> (\<exists>u. me' = Some u \<and> c \<in> set (following u) \<and> c \<in> set (followers u)))"
    if ex: "findUserById (uid req_user) (users s) = Some me"
  proof -
    have n: "Respelled (uid req_user) \<noteq> Canonical (uid req_user)" by simp
    have c: "cast_path (Respelled (uid req_user)) = WellFormed (uid req_user)"
      by (simp add: cast_path_def)
    show ?thesis
      unfolding Let_def
      by (simp add: follow_run [OF n c ex] m findUserById_update touch_fields ex)
  qed
  have other: "(let c = uid req_user;
           r = follow_handler req_user (Respelled t) stamp s
       in fst r = (200, FollowOut True c)
        \<and> map_option following (findUserById c (users (snd r))) =
            map_option
              (\<lambda>u. if t \<in> set (following u) then following u else following u @ [t])
              (findUserById c (users s))
        \<and> map_option followers (findUserById t (users (snd r))) =
            Some (if c \<in> set (followers target) then followers target
                  else followers target @ [c]))"
    if ne: "t \<noteq> uid req_user" and ex: "findUserById t (users s) = Some target"
  proof -
    have n: "Respelled t \<noteq> Canonical (uid req_user)" by simp
    have c: "cast_path (Respelled t) = WellFormed t" by (simp add: cast_path_def)
    note a = follow_lists_after [OF n c ex ne, of stamp]
    have r: "fst (follow_handler req_user (Respelled t) stamp s) =
               (200, FollowOut True (uid req_user))"
      by (simp add: follow_run [OF n c ex] m)
    show ?thesis
      unfolding Let_def using r a(1) a(2) by (simp add: m)
  qed
  from self other show ?thesis by blast
qed

text \<open>
  The theorem at two users, ann (3), who follows bob (5), and bob: ann's own identifier in
  another spelling makes ann follow herself, and bob's identifier in another spelling does
  not unfollow bob, where the canonical spellings are answered with 400 and with an
  unfollow.
\<close>

theorem follow_respelled_bypasses_string_tests_witness:
  "(let ann = (demo_user 3 ''ann'' [5])\<lparr>followers := []\<rparr>;
        bob = (demo_user 5 ''bob'' [])\<lparr>followers := [3]\<rparr>;
        s = \<lparr>tweets = [], users = [ann, bob]\<rparr>;
        r_self = follow_handler ann (Respelled 3) None s;
        r_bob = follow_handler ann (Respelled 5) None s;
        r_unfollow = follow_handler ann (Canonical 5) None s
    in findUserById 3 (users s) = Some ann \<and> findUserById 5 (users s) = Some bob
     \<and> fst (follow_handler ann (Canonical 3) None s) = (400, Message ''You cannot follow yourself'')
     \<and> fst r_self = (200, FollowOut True 3)
     \<and> map_option following (findUserById 3 (users (snd r_self))) = Some [5, 3]
     \<and> map_option followers (findUserById 3 (users (snd r_self))) = Some [3]
     \<and> fst r_unfollow = (200, FollowOut False 3)
     \<and> map_option following (findUserById 3 (users (snd r_unfollow))) = Some []
     \<and> map_option followers (findUserById 5 (users (snd r_unfollow))) = Some []
     \<and> fst r_bob = (200, FollowOut True 3)
     \<and> map_option following (findUserById 3 (users (snd r_bob))) = Some [5]
     \<and> map_option followers (findUserById 5 (users (snd r_bob))) = Some [3])"
  using
    follow_respelled_bypasses_string_tests [where req_user = "demo_user 3 ''ann'' [5]"
      and stamp = None and t = 5 and me = "demo_user 3 ''ann'' [5]"
      and target = "(demo_user 5 ''bob'' [])\<lparr>followers := [3]\<rparr>"
      and s = "\<lparr>tweets = [],
                users = [demo_user 3 ''ann'' [5], (demo_user 5 ''bob'' [])\<lparr>followers := [3]\<rparr>]\<rparr>"]
  by (simp add: Let_def demo_user_def findUserById_def follow_handler_def cast_path_def
      findByIdAndUpdate_def touch_def pull_def addToSet_def)

section \<open>Creating tweets and replies\<close>

lemma create_cases:
  "create_handler req_user c file nid now s =
     (if body_field c \<noteq> [] \<and> length (body_field c) \<le> 280 \<and> findById nid (tweets s) = None
      then (let t = \<lparr>tid = nid, user = uid req_user, content = body_field c,
                      image_path = upload_path file, likes = [], retweets = [],
                      parent = None, isReply = False, createdAt = now, updatedAt = now\<rparr>;
                s' = s\<lparr>tweets := tweets s @ [t]\<rparr>
            in ((200, TweetOut (populate_user s' t)), s'))
      else if body_field c = [] then ((400, ValidationErrors [''Content is required'']), s)
      else ((500, Text ''Server error''), s))"
  by (auto simp: create_handler_def content_errors_def insert_tweet_def Let_def
      server_error_def)

lemma reply_cases:
  "reply_handler req_user pid c file nid now s =
     (if body_field c = [] then ((400, ValidationErrors [''Content is required'']), s)
      else case pid of
        Malformed \<Rightarrow> ((404, Message ''Tweet not found''), s)
      | WellFormed i \<Rightarrow>
          if findById i (tweets s) = None then ((404, Message ''Tweet not found''), s)
          else if length (body_field c) \<le> 280 \<and> findById nid (tweets s) = None
          then (let t = \<lparr>tid = nid, user = uid req_user, content = body_field c,
                      image_path = upload_path file, likes = [], retweets = [],
                      parent = Some i, isReply = True, createdAt = now, updatedAt = now\<rparr>;
                s' = s\<lparr>tweets := tweets s @ [t]\<rparr>
            in ((200, TweetOut (populate_user s' t)), s'))
          else ((500, Text ''Server error''), s))"
  by (auto simp: reply_handler_def content_errors_def insert_tweet_def Let_def
      server_error_def tweet_not_found_def split: path_id.splits option.splits)

text \<open>
  C8. Every tweet that the create and the reply handler produce has a parent exactly when
  its reply flag is set. POST /tweets succeeds exactly when the content is not empty, has
  at most 280 characters and the fresh identifier is unused, and then stores one new tweet
  with no parent and \<open>isReply\<close> false; POST /tweets/:id/reply succeeds exactly when in
  addition the path identifier names an existing tweet, and then stores one new tweet whose
  parent is that tweet and whose \<open>isReply\<close> is true. A request that does not succeed
  stores nothing.
\<close>

theorem created_tweets_parent_iff_reply:
  "(case create_handler req_user c req_file nid now s of
      (r, s') \<Rightarrow>
        (fst r = 200) =
          (body_field c \<noteq> [] \<and> length (body_field c) \<le> 280 \<and> findById nid (tweets s) = None)
        \<and> (if fst r = 200
           then \<exists>t. tweets s' = tweets s @ [t] \<and> users s' = users s
                  \<and> snd r = TweetOut (populate_user s' t)
                  \<and> tid t = nid \<and> user t = uid req_user \<and> content t = body_field c
                  \<and> parent t = None \<and> isReply t = False
                  \<and> (parent t \<noteq> None) = isReply t
           else s' = s))
   \<and> (case reply_handler req_user pid c req_file nid now s of
        (r, s') \<Rightarrow>
          (fst r = 200) =
            (body_field c \<noteq> [] \<and> length (body_field c) \<le> 280 \<and> findById nid (tweets s) = None
             \<and> (\<exists>i. pid = WellFormed i \<and> findById i (tweets s) \<noteq> None))
          \<and> (if fst r = 200
             then \<exists>t i. pid = WellFormed i \<and> findById i (tweets s) \<noteq> None
                    \<and> tweets s' = tweets s @ [t] \<and> users s' = users s
                    \<and> snd r = TweetOut (populate_user s' t)
                    \<and> tid t = nid \<and> user t = uid req_user \<and> content t = body_field c
                    \<and> parent t = Some i \<and> isReply t = True
                    \<and> (parent t \<noteq> None) = isReply t
             else s' = s))"
proof -
  have c: "(case create_handler req_user c req_file nid now s of
      (r, s') \<Rightarrow>
        (fst r = 200) =
          (body_field c \<noteq> [] \<and> length (body_field c) \<le> 280 \<and> findById nid (tweets s) = None)
        \<and> (if fst r = 200
           then \<exists>t. tweets s' = tweets s @ [t] \<and> users s' = users s
                  \<and> snd r = TweetOut (populate_user s' t)
                  \<and> tid t = nid \<and> user t = uid req_user \<and> content t = body_field c
                  \<and> parent t = None \<and> isReply t = False
                  \<and> (parent t \<noteq> None) = isReply t
           else s' = s))"
    unfolding create_cases by (simp add: Let_def)
  have r: "(case reply_handler req_user pid c req_file nid now s of
        (r, s') \<Rightarrow>
          (fst r = 200) =
            (body_field c \<noteq> [] \<and> length (body_field c) \<le> 280 \<and> findById nid (tweets s) = None
             \<and> (\<exists>i. pid = WellFormed i \<and> findById i (tweets s) \<noteq> None))
          \<and> (if fst r = 200
             then \<exists>t i. pid = WellFormed i \<and> findById i (tweets s) \<noteq> None
                    \<and> tweets s' = tweets s @ [t] \<and> users s' = users s
                    \<and> snd r = TweetOut (populate_user s' t)
                    \<and> tid t = nid \<and> user t = uid req_user \<and> content t = body_field c
                    \<and> parent t = Some i \<and> isReply t = True
                    \<and> (parent t \<noteq> None) = isReply t
             else s' = s))"
    unfolding reply_cases by (cases pid) (auto simp: Let_def)
  from c r show ?thesis by (rule conjI)
qed

text \<open>
  The theorem at a store with one tweet: ann posts a tweet, and ann answers tweet 1 with
  an uploaded image.
\<close>

theorem created_tweets_parent_iff_reply_witness:
  "(let ann = demo_user 3 ''ann'' [];
        s = \<lparr>tweets = [demo_tweet 1 5 ''post'' 10], users = [ann]\<rparr>;
        r1 = create_handler ann (Some ''hello'') None 2 20 s;
        r2 = reply_handler ann (WellFormed 1) (Some ''answer'') (Some ''a.png'') 2 20 s
    in fst (fst r1) = 200
     \<and> tweets (snd r1) = [demo_tweet 1 5 ''post'' 10, demo_tweet 2 3 ''hello'' 20]
     \<and> fst (fst r2) = 200
     \<and> tweets (snd r2) =
         [demo_tweet 1 5 ''post'' 10,
          (demo_tweet 2 3 ''answer'' 20)\<lparr>image_path := Some ''/uploads/a.png'',
             parent := Some 1, isReply := True\<rparr>])"
  using
    created_tweets_parent_iff_reply [where req_user = "demo_user 3 ''ann'' []"
      and c = "Some ''hello''" and req_file = None and nid = 2 and now = 20 and pid = "WellFormed 1"
      and s = "\<lparr>tweets = [demo_tweet 1 5 ''post'' 10], users = [demo_user 3 ''ann'' []]\<rparr>"]
    created_tweets_parent_iff_reply [where req_user = "demo_user 3 ''ann'' []"
      and c = "Some ''answer''" and req_file = "Some ''a.png''" and nid = 2 and now = 20
      and pid = "WellFormed 1"
      and s = "\<lparr>tweets = [demo_tweet 1 5 ''post'' 10], users = [demo_user 3 ''ann'' []]\<rparr>"]
  by (simp add: Let_def demo_user_def demo_tweet_def create_handler_def reply_handler_def
      content_errors_def body_field_def insert_tweet_def findById_def upload_path_def)

section \<open>Updating the caller's profile\<close>

lemma uid_apply_set: "uid (apply_set f u) = uid u"
  by (simp add: apply_set_def)

lemma findUserById_uid: "findUserById i us = Some u \<Longrightarrow> uid u = i"
  by (auto simp: findUserById_def find_Some_iff)

text \<open>
  C7. For a caller whose record \<open>u\<close> is stored and every request body, PUT /users/me
  answers 200 with the updated record, password excluded. Of the record's fields only
  name, bio, location and website can change, and each of them only when the body has that
  field: it takes the body's value when that is not the empty string and keeps its own
  value otherwise. Every other field of the record is unchanged, whatever else the body
  holds, and so are the tweets and all other users. The update timestamp, which the store
  and not the handler writes, is unchanged as well when the User schema does not ask for
  timestamps, and is the time of the update when it does.
\<close>

theorem update_me_frame:
  assumes "findUserById (uid req_user) (users s) = Some u"
  shows "(case update_me_handler req_user req_body stamp s of
            (r, s') \<Rightarrow>
              \<exists>u'. findUserById (uid req_user) (users s') = Some u'
                 \<and> r = (200, UserOut (Some (u'\<lparr>password := None\<rparr>)))
                 \<and> name u' = (case req_body ''name'' of None \<Rightarrow> name u
                               | Some v \<Rightarrow> if v = [] then name u else v)
                 \<and> bio u' = (case req_body ''bio'' of None \<Rightarrow> bio u
                              | Some v \<Rightarrow> if v = [] then bio u else v)
                 \<and> location u' = (case req_body ''location'' of None \<Rightarrow> location u
                                   | Some v \<Rightarrow> if v = [] then location u else v)
                 \<and> website u' = (case req_body ''website'' of None \<Rightarrow> website u
                                  | Some v \<Rightarrow> if v = [] then website u else v)
                 \<and> u'\<lparr>name := name u, bio := bio u, location := location u,
                       website := website u, userUpdatedAt := userUpdatedAt u\<rparr> = u
                 \<and> userUpdatedAt u' =
                     (case stamp of None \<Rightarrow> userUpdatedAt u | Some now \<Rightarrow> now)
                 \<and> tweets s' = tweets s
                 \<and> (\<forall>j. j \<noteq> uid req_user \<longrightarrow>
                        findUserById j (users s') = findUserById j (users s)))"
proof -
  define f where "f = apply_set (build_user_fields req_body)"
  define s' where "s' = findByIdAndUpdate (uid req_user) stamp f s"
  have fu: "\<And>x. uid (f x) = uid x" by (simp add: f_def uid_apply_set)
  have look: "findUserById j (users s') =
           (if j = uid req_user
            then map_option (\<lambda>u. touch stamp (f u)) (findUserById (uid req_user) (users s))
            else findUserById j (users s))" for j
    unfolding s'_def by (rule findUserById_update [OF fu])
  have me: "findUserById (uid req_user) (users s') = Some (touch stamp (f u))"
    using look [of "uid req_user"] assms by simp
  have run: "update_me_handler req_user req_body stamp s =
          ((200, UserOut (Some ((touch stamp (f u))\<lparr>password := None\<rparr>))), s')"
    using me by (simp add: update_me_handler_def Let_def f_def [symmetric] s'_def [symmetric])
  have tw: "tweets s' = tweets s" by (simp add: s'_def findByIdAndUpdate_def)
  have fields:
    "name (touch stamp (f u)) = (case req_body ''name'' of None \<Rightarrow> name u
                   | Some v \<Rightarrow> if v = [] then name u else v)"
    "bio (touch stamp (f u)) = (case req_body ''bio'' of None \<Rightarrow> bio u
                  | Some v \<Rightarrow> if v = [] then bio u else v)"
    "location (touch stamp (f u)) = (case req_body ''location'' of None \<Rightarrow> location u
                       | Some v \<Rightarrow> if v = [] then location u else v)"
    "website (touch stamp (f u)) = (case req_body ''website'' of None \<Rightarrow> website u
                      | Some v \<Rightarrow> if v = [] then website u else v)"
    by (simp_all add: f_def apply_set_def build_user_fields_def truthy_def touch_def
        split: option.splits)
  have frame: "(touch stamp (f u))\<lparr>name := name u, bio := bio u,
                  location := location u, website := website u,
                  userUpdatedAt := userUpdatedAt u\<rparr> = u"
    by (simp add: f_def apply_set_def touch_def split: option.splits)
  have stamped: "userUpdatedAt (touch stamp (f u)) =
                   (case stamp of None \<Rightarrow> userUpdatedAt u | Some now \<Rightarrow> now)"
    by (simp add: f_def apply_set_def touch_def split: option.splits)
  have others: "\<forall>j. j \<noteq> uid req_user \<longrightarrow>
                  findUserById j (users s') = findUserById j (users s)"
    by (simp add: look)
  show ?thesis
    unfolding run prod.case
    by (rule exI [of _ "touch stamp (f u)"])
      (simp add: me tw fields frame stamped others)
qed

text \<open>
  The theorem at a body with a new name, an empty bio and a field that is not recognized:
  only the name changes, and with it the update timestamp when the schema asks for
  timestamps.
\<close>

theorem update_me_frame_witness:
  "(let ann = demo_user 3 ''ann'' [];
        s = \<lparr>tweets = [], users = [ann]\<rparr>;
        req_body = [''name'' \<mapsto> ''Ann B'', ''bio'' \<mapsto> [], ''email'' \<mapsto> ''eve@example.org''];
        r = update_me_handler ann req_body None s;
        r_stamped = update_me_handler ann req_body (Some 20) s
    in findUserById (uid ann) (users s) = Some ann
     \<and> users (snd r) = [ann\<lparr>name := ''Ann B''\<rparr>]
     \<and> fst r = (200, UserOut (Some (ann\<lparr>name := ''Ann B'', password := None\<rparr>)))
     \<and> users (snd r_stamped) = [ann\<lparr>name := ''Ann B'', userUpdatedAt := 20\<rparr>])"
  using
    update_me_frame [of "demo_user 3 ''ann'' []"
      "\<lparr>tweets = [], users = [demo_user 3 ''ann'' []]\<rparr>" "demo_user 3 ''ann'' []"
      "[''name'' \<mapsto> ''Ann B'', ''bio'' \<mapsto> [], ''email'' \<mapsto> ''eve@example.org'']" None]
    update_me_frame [of "demo_user 3 ''ann'' []"
      "\<lparr>tweets = [], users = [demo_user 3 ''ann'' []]\<rparr>" "demo_user 3 ''ann'' []"
      "[''name'' \<mapsto> ''Ann B'', ''bio'' \<mapsto> [], ''email'' \<mapsto> ''eve@example.org'']" "Some 20"]
  by (simp add: Let_def demo_user_def findUserById_def update_me_handler_def
      findByIdAndUpdate_def build_user_fields_def truthy_def apply_set_def touch_def)

section \<open>The timeline\<close>








lemma of_char_digit: "d < 10 \<Longrightarrow> (of_char (char_of (48 + d) :: char) :: nat) = 48 + d"
  by simp

lemma digitValue_digit: "d < 10 \<Longrightarrow> digitValue (char_of (48 + d)) = d"
  by (simp add: digitValue_def Let_def)

lemma isWhiteSpace_digit: "digitValue c < 10 \<Longrightarrow> \<not> isWhiteSpace c"
  by (auto simp: isWhiteSpace_def digitValue_def)

lemma sign_digit: "digitValue c < 10 \<Longrightarrow> c \<noteq> CHR ''+'' \<and> c \<noteq> CHR ''-''"
  by (auto simp: digitValue_def)

lemma x_digit: "digitValue c < 10 \<Longrightarrow> c \<noteq> CHR ''x'' \<and> c \<noteq> CHR ''X''"
  by (auto simp: digitValue_def)

lemma decimal_digits: "c \<in> set (decimal n) \<Longrightarrow> digitValue c < 10"
proof (induction n arbitrary: c rule: decimal.induct)
  case (1 n)
  show ?case
  proof (cases "n < 10")
    case True
    with "1.prems" have "c = char_of (48 + n)" by (subst (asm) decimal.simps) simp
    with True show ?thesis by (simp add: digitValue_digit)
  next
    case False
    have m: "n mod 10 < 10" by simp
    from False "1.prems" have "c \<in> set (decimal (n div 10)) \<or> c = char_of (48 + n mod 10)"
      by (subst (asm) decimal.simps) auto
    with False "1.IH" digitValue_digit [OF m] m show ?thesis by auto
  qed
qed

lemma decimal_not_empty: "decimal n \<noteq> []"
  by (subst decimal.simps) simp

lemma decimal_value: "foldl (\<lambda>a c. a * 10 + digitValue c) 0 (decimal n) = n"
proof (induction n rule: decimal.induct)
  case (1 n)
  show ?case
  proof (cases "n < 10")
    case True
    then show ?thesis by (subst decimal.simps) (simp add: digitValue_digit)
  next
    case False
    have m: "n mod 10 < 10" by simp
    have "foldl (\<lambda>a c. a * 10 + digitValue c) 0 (decimal n) =
          foldl (\<lambda>a c. a * 10 + digitValue c) 0 (decimal (n div 10)) * 10 +
            digitValue (char_of (48 + n mod 10))"
      using False by (subst decimal.simps) simp
    also have "\<dots> = n div 10 * 10 + n mod 10"
      using "1.IH" False digitValue_digit [OF m] by simp
    finally show ?thesis by simp
  qed
qed

lemma parseInt_decimal: "parseInt (decimal n) = Some (int n)"
proof -
  obtain c r where cr: "decimal n = c # r"
    using decimal_not_empty [of n] by (cases "decimal n") auto
  have dc: "digitValue c < 10" using decimal_digits [of c n] cr by simp
  have ws: "dropWhile isWhiteSpace (decimal n) = decimal n"
    using cr isWhiteSpace_digit [OF dc] by simp
  have sg: "stripSign (decimal n) = decimal n"
    using cr sign_digit [OF dc] by (simp add: stripSign_def)
  have nx: "take 2 (decimal n) \<noteq> ''0x'' \<and> take 2 (decimal n) \<noteq> ''0X''"
  proof (cases r)
    case Nil
    with cr show ?thesis by simp
  next
    case (Cons d r')
    with cr have "digitValue d < 10" using decimal_digits [of d n] by simp
    with cr Cons show ?thesis using x_digit [of d] by auto
  qed
  have tw: "takeWhile (\<lambda>c. digitValue c < 10) (decimal n) = decimal n"
    using decimal_digits by (simp add: takeWhile_eq_all_conv)
  have sn: "(case decimal n of [] \<Rightarrow> 1 | c # r \<Rightarrow> if c = CHR ''-'' then - 1 else (1::int)) = 1"
    using cr sign_digit [OF dc] by simp
  have "parseInt (decimal n) =
          Some (1 * int (foldl (\<lambda>a c. a * 10 + digitValue c) 0 (decimal n)))"
    unfolding parseInt_def Let_def ws sg sn using nx decimal_not_empty [of n]
    by (simp add: tw)
  then show ?thesis by (simp add: decimal_value)
qed

lemma newest_first_mset: "mset (newest_first ts) = mset ts"
  by (simp add: newest_first_def)

lemma newest_first_sorted:
  assumes "i \<le> j" and "j < length (newest_first ts)"
  shows "createdAt (newest_first ts ! j) \<le> createdAt (newest_first ts ! i)"
proof -
  have "sorted (map (\<lambda>t. - int (createdAt t)) (newest_first ts))"
    by (simp add: newest_first_def)
  then have "map (\<lambda>t. - int (createdAt t)) (newest_first ts) ! i \<le>
             map (\<lambda>t. - int (createdAt t)) (newest_first ts) ! j"
    using assms by (simp add: sorted_iff_nth_mono del: nth_map)
  then show ?thesis using assms by simp
qed

lemma on_timeline_iff:
  "on_timeline req_user t =
     (isReply t = False \<and>
      (user t = uid req_user \<or> user t \<in> set (following req_user) \<or>
       uid req_user \<in> set (retweets t)))"
  by (auto simp: on_timeline_def)

text \<open>
  C4. For a page parameter that \<open>parseInt\<close> reads as \<open>p \<ge> 1\<close>, with the skip
  \<open>(p - 1) * 10\<close> below \<open>2 ^ 53\<close> (where JavaScript's numbers are exact), GET /tweets
  answers 200
  with the tweets at positions \<open>(p - 1) * 10 + 1\<close> to \<open>p * 10\<close> of the ranked list, in
  that order, each with its owner and parent expanded. The ranked list holds exactly the
  stored tweets with \<open>isReply\<close> false that the caller wrote, that a user the caller
  follows wrote, or that the caller retweeted (as a multiset), newest first. The page
  has \<open>min 10 (length ranked - (p - 1) * 10)\<close> items, and its item \<open>k\<close> (from 0) is item
  \<open>(p - 1) * 10 + k\<close> of the ranked list. The decimal numeral of \<open>p\<close> is such a page
  parameter.
\<close>

theorem timeline_page_contents:
  assumes "parseInt v = Some (int p)" and "1 \<le> p" and "(p - 1) * 10 < 2 ^ 53"
  shows "(let eligible =
                filter (\<lambda>t. isReply t = False \<and>
                             (user t = uid req_user \<or> user t \<in> set (following req_user) \<or>
                              uid req_user \<in> set (retweets t))) (tweets s);
              ranked = newest_first eligible;
              page_items = take 10 (drop ((p - 1) * 10) ranked)
          in timeline_handler req_user (Some v) s =
               (200, TweetsFull (map (populate_parent s) page_items))
           \<and> map (\<lambda>x. fst (fst x)) (map (populate_parent s) page_items) = page_items
           \<and> mset ranked = mset eligible
           \<and> (\<forall>i j. i \<le> j \<and> j < length ranked \<longrightarrow>
                  createdAt (ranked ! j) \<le> createdAt (ranked ! i))
           \<and> length page_items = min 10 (length ranked - (p - 1) * 10)
           \<and> (\<forall>k < length page_items. page_items ! k = ranked ! ((p - 1) * 10 + k))
           \<and> parseInt (decimal p) = Some (int p))"
proof -
  have pg: "timeline_page (Some v) = int p"
    using assms by (simp add: timeline_page_def toString_def)
  have sk: "timeline_skip (Some v) = int ((p - 1) * 10)"
    using assms(2) by (simp add: timeline_skip_def pg of_nat_diff)
  have sk0: "\<not> timeline_skip (Some v) < 0" and skn: "nat (timeline_skip (Some v)) = (p - 1) * 10"
    unfolding sk by simp_all
  have f: "filter (on_timeline req_user) (tweets s) =
           filter (\<lambda>t. isReply t = False \<and>
                             (user t = uid req_user \<or> user t \<in> set (following req_user) \<or>
                              uid req_user \<in> set (retweets t))) (tweets s)"
    by (rule filter_cong) (simp_all add: on_timeline_iff)
  have run: "timeline_handler req_user (Some v) s =
        (200, TweetsFull (map (populate_parent s)
           (take 10 (drop ((p - 1) * 10)
              (newest_first (filter (\<lambda>t. isReply t = False \<and>
                             (user t = uid req_user \<or> user t \<in> set (following req_user) \<or>
                              uid req_user \<in> set (retweets t))) (tweets s)))))))"
    unfolding timeline_handler_def Let_def f by (simp only: sk0 skn if_False)
  have pop: "map (\<lambda>x. fst (fst x)) (map (populate_parent s) xs) = xs" for xs
    by (induction xs) (simp_all add: populate_parent_def populate_user_def)
  show ?thesis
    unfolding Let_def
    using run pop newest_first_mset newest_first_sorted parseInt_decimal
    by (auto simp: min_def)
qed

text \<open>
  The theorem at page 2 of a timeline of twelve eligible tweets (and two that are not
  eligible): the page holds the tweets ranked 11 and 12.
\<close>

theorem timeline_page_contents_witness:
  "parseInt ''2'' = Some (int 2)
   \<and> timeline_handler (demo_user 3 ''ann'' []) (Some ''2'') demo_timeline =
       (200, TweetsFull [populate_parent demo_timeline (demo_tweet 2 3 ''post'' 102),
                         populate_parent demo_timeline (demo_tweet 1 3 ''post'' 101)])"
proof -
  let ?ann = "demo_user 3 ''ann'' []"
  let ?eligible =
    "filter (\<lambda>t. isReply t = False \<and>
                  (user t = uid ?ann \<or> user t \<in> set (following ?ann) \<or>
                   uid ?ann \<in> set (retweets t))) (tweets demo_timeline)"
  have z: "parseInt ''2'' = Some (int 2)"
    by (simp add: parseInt_def Let_def isWhiteSpace_def stripSign_def digitValue_def)
  have one: "1 \<le> (2::nat)" by simp
  have small: "(2 - 1) * 10 < (2::nat) ^ 53" by simp
  have t: "timeline_handler ?ann (Some ''2'') demo_timeline =
             (200, TweetsFull (map (populate_parent demo_timeline)
                (take 10 (drop ((2 - 1) * 10) (newest_first ?eligible)))))"
    by (rule timeline_page_contents [OF z one small, of ?ann demo_timeline,
          unfolded Let_def, THEN conjunct1])
  have e: "?eligible =
           map (\<lambda>i. demo_tweet i 3 ''post'' (100 + i)) [1, 2, 3, 4, 5, 6, 7, 8, 9, 10, 11, 12]"
    by (simp add: demo_timeline_def demo_tweet_def demo_user_def)
  have r: "newest_first
             (map (\<lambda>i. demo_tweet i 3 ''post'' (100 + i)) [1, 2, 3, 4, 5, 6, 7, 8, 9, 10, 11, 12]) =
           map (\<lambda>i. demo_tweet i 3 ''post'' (100 + i)) [12, 11, 10, 9, 8, 7, 6, 5, 4, 3, 2, 1]"
    by (simp add: newest_first_def demo_tweet_def)
  show ?thesis
    unfolding t e r using z by simp
qed

section \<open>Search\<close>

lemma compile_rx_plain:
  assumes "list_all (\<lambda>c. \<not> rx_unmodelled c \<and> c \<noteq> CHR ''.'') q"
  shows "compile_rx q = Some (map Lit q)"
proof -
  have "\<not> list_ex rx_unmodelled q"
    using assms by (auto simp: list_all_iff list_ex_iff)
  moreover have "map (\<lambda>c. if c = CHR ''.'' then AnyChar else Lit c) q = map Lit q"
    using assms by (auto simp: list_all_iff)
  ultimately show ?thesis by (simp add: compile_rx_def)
qed

lemma matches_prefix_lit:
  "matches_prefix casefold (map Lit q) subj = prefix (map casefold q) (map casefold subj)"
proof (induction q arbitrary: subj)
  case Nil
  then show ?case by simp
next
  case (Cons a q)
  then show ?case by (cases subj) (auto simp: atom_matches_def)
qed

lemma rx_search_lit: "rx_search casefold (map Lit q) subj = contains_ci casefold q subj"
proof (induction subj)
  case Nil
  then show ?case by (simp add: contains_ci_def matches_prefix_lit)
next
  case (Cons c subj)
  then show ?case
    by (simp add: contains_ci_def matches_prefix_lit sublist_Cons_right)
qed

text \<open>
  C5, as amended. GET /search answers 400 when the query is missing or empty. For a plain
  query \<open>q\<close> (no character of the pattern syntax, no NUL) it answers 200 with the first
  ten, in store order, of the users whose name or username contains \<open>q\<close> as a substring
  up to case, password and email excluded, and with the twenty newest, newest first, of
  the tweets whose content contains \<open>q\<close> in that sense, owner expanded; when no record
  matches, both result sets are empty and the answer is still 200. This holds whatever
  case folding the store applies.
\<close>

theorem search_plain_query:
  "search_handler casefold None s = Some (400, Message ''Search query is required'')
   \<and> search_handler casefold (Some []) s = Some (400, Message ''Search query is required'')
   \<and> (plain_query q \<longrightarrow>
        (let found_users =
               take 10 (filter (\<lambda>u. contains_ci casefold q (name u) \<or>
                                    contains_ci casefold q (username u))
                          (users s));
             found_tweets =
               take 20 (newest_first (filter (\<lambda>t. contains_ci casefold q (content t)) (tweets s)))
         in search_handler casefold (Some q) s =
              Some (200, SearchOut (map select_public found_users)
                           (map (populate_user s) found_tweets))
          \<and> length found_users \<le> 10 \<and> length found_tweets \<le> 20
          \<and> list_all (\<lambda>u. password u = None \<and> email u = None) (map select_public found_users)
          \<and> map fst (map (populate_user s) found_tweets) = found_tweets
          \<and> ((\<forall>u \<in> set (users s). \<not> contains_ci casefold q (name u) \<and>
                                     \<not> contains_ci casefold q (username u))
               \<and> (\<forall>t \<in> set (tweets s). \<not> contains_ci casefold q (content t))
              \<longrightarrow> search_handler casefold (Some q) s = Some (200, SearchOut [] []))))"
proof -
  have a: "search_handler casefold None s = Some (400, Message ''Search query is required'')"
    and b: "search_handler casefold (Some []) s =
              Some (400, Message ''Search query is required'')"
    by (simp_all add: search_handler_def)
  have c: "(let found_users =
               take 10 (filter (\<lambda>u. contains_ci casefold q (name u) \<or>
                                    contains_ci casefold q (username u))
                          (users s));
             found_tweets =
               take 20 (newest_first (filter (\<lambda>t. contains_ci casefold q (content t)) (tweets s)))
         in search_handler casefold (Some q) s =
              Some (200, SearchOut (map select_public found_users)
                           (map (populate_user s) found_tweets))
          \<and> length found_users \<le> 10 \<and> length found_tweets \<le> 20
          \<and> list_all (\<lambda>u. password u = None \<and> email u = None) (map select_public found_users)
          \<and> map fst (map (populate_user s) found_tweets) = found_tweets
          \<and> ((\<forall>u \<in> set (users s). \<not> contains_ci casefold q (name u) \<and>
                                     \<not> contains_ci casefold q (username u))
               \<and> (\<forall>t \<in> set (tweets s). \<not> contains_ci casefold q (content t))
              \<longrightarrow> search_handler casefold (Some q) s = Some (200, SearchOut [] [])))"
    if pq: "plain_query q"
  proof -
    from pq have ne: "q \<noteq> []" and rx: "compile_rx q = Some (map Lit q)"
      by (simp_all add: plain_query_def compile_rx_plain)
    have run: "search_handler casefold (Some q) s =
              Some (200, SearchOut
                (map select_public
                   (take 10 (filter (\<lambda>u. contains_ci casefold q (name u) \<or>
                                        contains_ci casefold q (username u))
                          (users s))))
                (map (populate_user s)
                   (take 20 (newest_first
                      (filter (\<lambda>t. contains_ci casefold q (content t)) (tweets s))))))"
      using ne by (simp add: search_handler_def rx rx_search_lit Let_def)
    have hide: "list_all (\<lambda>u. password u = None \<and> email u = None) (map select_public us)" for us
      by (simp add: list_all_iff select_public_def)
    have pop: "map fst (map (populate_user s) ts) = ts" for ts
      by (induction ts) (simp_all add: populate_user_def)
    have none: "search_handler casefold (Some q) s = Some (200, SearchOut [] [])"
      if "\<forall>u \<in> set (users s). \<not> contains_ci casefold q (name u) \<and>
                                 \<not> contains_ci casefold q (username u)"
        and "\<forall>t \<in> set (tweets s). \<not> contains_ci casefold q (content t)"
    proof -
      from that(1) have "filter (\<lambda>u. contains_ci casefold q (name u) \<or>
                                     contains_ci casefold q (username u))
                          (users s) = []"
        by (simp add: filter_empty_conv)
      moreover from that(2) have "filter (\<lambda>t. contains_ci casefold q (content t)) (tweets s) = []"
        by (simp add: filter_empty_conv)
      ultimately show ?thesis by (simp add: run newest_first_def)
    qed
    show ?thesis
      unfolding Let_def using run hide pop none by simp
  qed
  from a b c show ?thesis by blast
qed

text \<open>
  The theorem at the query \<open>AN\<close> and the case folding \<open>lower\<close>: it finds the user
  ann and the tweet Banana, and neither bob nor hello.
\<close>

theorem search_plain_query_witness:
  "plain_query ''AN''
   \<and> search_handler lower (Some ''AN'') demo_search =
       Some (200, SearchOut [select_public (demo_user 3 ''ann'' [])]
                    [populate_user demo_search (demo_tweet 1 5 ''Banana'' 10)])"
proof -
  have pq: "plain_query ''AN''"
    by (simp add: plain_query_def rx_unmodelled_def rx_syntax_def)
  have t: "search_handler lower (Some ''AN'') demo_search =
       Some (200, SearchOut
         (map select_public
            (take 10 (filter (\<lambda>u. contains_ci lower ''AN'' (name u) \<or>
                                 contains_ci lower ''AN'' (username u))
                        (users demo_search))))
         (map (populate_user demo_search)
            (take 20 (newest_first
               (filter (\<lambda>t. contains_ci lower ''AN'' (content t)) (tweets demo_search))))))"
    by (rule search_plain_query [of lower demo_search "''AN''", THEN conjunct2,
          THEN conjunct2, THEN mp, OF pq, unfolded Let_def, THEN conjunct1])
  have l: "lower (CHR ''A'') = CHR ''a''" "lower (CHR ''N'') = CHR ''n''"
    "lower (CHR ''a'') = CHR ''a''" "lower (CHR ''n'') = CHR ''n''"
    "lower (CHR ''B'') = CHR ''b''" "lower (CHR ''b'') = CHR ''b''"
    "lower (CHR ''o'') = CHR ''o''" "lower (CHR ''h'') = CHR ''h''"
    "lower (CHR ''e'') = CHR ''e''" "lower (CHR ''l'') = CHR ''l''"
    by code_simp+
  have c: "contains_ci lower ''AN'' ''ann''" "\<not> contains_ci lower ''AN'' ''bob''"
    "contains_ci lower ''AN'' ''Banana''" "\<not> contains_ci lower ''AN'' ''hello''"
    unfolding rx_search_lit [symmetric] by (simp_all add: atom_matches_def l)
  show ?thesis
    unfolding t using pq
    by (simp add: demo_search_def demo_user_def demo_tweet_def c newest_first_def)
qed

text \<open>
  The claim as stated fails, because the query is a pattern and not a text: the query
  \<open>.\<close> returns every user and every tweet of the sample store, and none of their names
  or contents contains a dot.
\<close>

theorem search_substring_counterexample:
  "search_handler lower (Some ''.'') demo_search =
     Some (200, SearchOut [select_public (demo_user 3 ''ann'' []),
                           select_public (demo_user 5 ''bob'' [])]
                  [populate_user demo_search (demo_tweet 2 5 ''hello'' 11),
                   populate_user demo_search (demo_tweet 1 5 ''Banana'' 10)])
   \<and> \<not> contains_ci lower ''.'' ''hello'' \<and> \<not> contains_ci lower ''.'' ''Banana''
   \<and> \<not> contains_ci lower ''.'' ''ann'' \<and> \<not> contains_ci lower ''.'' ''bob''"
proof -
  have l: "lower (CHR ''.'') = CHR ''.''"
    "lower (CHR ''a'') = CHR ''a''" "lower (CHR ''n'') = CHR ''n''"
    "lower (CHR ''B'') = CHR ''b''" "lower (CHR ''b'') = CHR ''b''"
    "lower (CHR ''o'') = CHR ''o''" "lower (CHR ''h'') = CHR ''h''"
    "lower (CHR ''e'') = CHR ''e''" "lower (CHR ''l'') = CHR ''l''"
    by code_simp+
  have c: "\<not> contains_ci lower ''.'' ''hello''" "\<not> contains_ci lower ''.'' ''Banana''"
    "\<not> contains_ci lower ''.'' ''ann''" "\<not> contains_ci lower ''.'' ''bob''"
    unfolding rx_search_lit [symmetric] by (simp_all add: atom_matches_def l)
  have r: "search_handler lower (Some ''.'') demo_search =
     Some (200, SearchOut [select_public (demo_user 3 ''ann'' []),
                           select_public (demo_user 5 ''bob'' [])]
                  [populate_user demo_search (demo_tweet 2 5 ''hello'' 11),
                   populate_user demo_search (demo_tweet 1 5 ''Banana'' 10)])"
    by (simp add: search_handler_def compile_rx_def rx_unmodelled_def rx_syntax_def Let_def
        atom_matches_def demo_search_def demo_user_def demo_tweet_def newest_first_def)
  from r c show ?thesis by simp
qed

section \<open>Stored tweets keep distinct identifiers\<close>

text \<open>
  The deletion theorem supposes that the stored tweets have pairwise distinct identifiers.
  The handlers that write tweets keep it so.
\<close>

lemma map_tid_update_first:
  assumes "\<And>x. P x \<Longrightarrow> tid (f x) = tid x"
  shows "map tid (update_first P f ts) = map tid ts"
  using assms by (induction ts) auto

lemma set_delete_first: "set (delete_first P ts) \<subseteq> set ts"
  by (induction ts) auto

lemma distinct_delete_first:
  "distinct (map tid ts) \<Longrightarrow> distinct (map tid (delete_first P ts))"
proof (induction ts)
  case Nil
  then show ?case by simp
next
  case (Cons a ts)
  have "tid ` set (delete_first P ts) \<subseteq> tid ` set ts"
    using set_delete_first [of P ts] by blast
  with Cons show ?case by auto
qed

lemma findById_None_iff: "findById i ts = None \<longleftrightarrow> i \<notin> tid ` set ts"
  by (auto simp: findById_def find_None_iff)

lemma handlers_keep_ids_distinct:
  assumes "distinct (map tid (tweets s))"
  shows "distinct (map tid (tweets (snd (create_handler req_user c req_file nid now s))))"
    and "distinct (map tid (tweets (snd (reply_handler req_user pid c req_file nid now s))))"
    and "distinct (map tid (tweets (snd (like_handler req_user pid now s))))"
    and "distinct (map tid (tweets (snd (retweet_handler req_user pid now s))))"
    and "distinct (map tid (tweets (snd (delete_handler req_user pid s))))"
proof -
  show "distinct (map tid (tweets (snd (create_handler req_user c req_file nid now s))))"
    using assms by (auto simp: create_cases Let_def findById_None_iff)
  show "distinct (map tid (tweets (snd (reply_handler req_user pid c req_file nid now s))))"
    using assms by (auto simp: reply_cases Let_def findById_None_iff split: path_id.splits)
  show "distinct (map tid (tweets (snd (like_handler req_user pid now s))))"
    using assms
    by (auto simp: like_handler_def save_tweet_def Let_def
          map_tid_update_first [where P = "\<lambda>x. tid x = j" for j]
        split: path_id.splits option.splits)
  show "distinct (map tid (tweets (snd (retweet_handler req_user pid now s))))"
    using assms
    by (auto simp: retweet_handler_def save_tweet_def Let_def
          map_tid_update_first [where P = "\<lambda>x. tid x = j" for j]
        split: path_id.splits option.splits)
  show "distinct (map tid (tweets (snd (delete_handler req_user pid s))))"
    using assms
    by (auto simp: delete_handler_def distinct_delete_first
        split: path_id.splits option.splits)
qed

end
